theory Spec2Isabelle
  imports Main
begin

section \<open>JavaScript values and strings\<close>

text \<open>
  The verifier (\<^verbatim>\<open>src/emailVerifier.js\<close>) is untyped JavaScript: its entry points receive any
  value. A value is observed there through its truthiness, through \<^verbatim>\<open>typeof\<close>, and through
  its \<^verbatim>\<open>trim\<close> member (\<^verbatim>\<open>email?.trim?.()\<close>). Primitive numbers and booleans have no such
  member; a string has the built-in one; for an object the member is absent, present but
  not callable, or a function that throws or returns.

  A string is a list of code units. The model covers code units below 256, one
  \<^typ>\<open>char\<close> each; every character the verifier accepts in an address is ASCII.
\<close>

datatype trim_member = TrimAbsent | TrimNotCallable | TrimThrows string | TrimReturns string

datatype js_value =
  JUndefined | JNull | JBool bool | JNum int | JStr string | JObj trim_member

text \<open>
  \<^verbatim>\<open>!email\<close> holds for the falsy values: undefined, null, false, 0 and the empty string.
  A number is observed through its truthiness only (NaN is falsy like 0).
\<close>

fun truthy :: "js_value \<Rightarrow> bool" where
  "truthy JUndefined = False"
| "truthy JNull = False"
| "truthy (JBool b) = b"
| "truthy (JNum n) = (n \<noteq> 0)"
| "truthy (JStr s) = (s \<noteq> [])"
| "truthy (JObj m) = True"

text \<open>
  An async function returns a promise: it is fulfilled with a value, rejected with the
  message of the exception that escaped, or it never settles.
\<close>

datatype 'a promise = Fulfilled 'a | Rejected string | Pending

text \<open>\<^verbatim>\<open>String.prototype.trim\<close> strips the white space of both ends.\<close>

definition is_ws :: "char \<Rightarrow> bool" where
  "is_ws c \<longleftrightarrow> c \<in> set [CHR 0x09, CHR 0x0A, CHR 0x0B, CHR 0x0C, CHR 0x0D, CHR 0x20, CHR 0xA0]"

definition trim :: "string \<Rightarrow> string" where
  "trim s = rev (dropWhile is_ws (rev (dropWhile is_ws s)))"

text \<open>
  \<^verbatim>\<open>s.split(c)\<close> for a separator of one character: the pieces between the occurrences of
  \<^verbatim>\<open>c\<close>, never an empty array.
\<close>

fun split_on :: "char \<Rightarrow> string \<Rightarrow> string list" where
  "split_on c [] = [[]]"
| "split_on c (x # xs) =
     (if x = c then [] # split_on c xs
      else (let r = split_on c xs in (x # hd r) # tl r))"

text \<open>\<^verbatim>\<open>(email.match(/@/g) || []).length\<close>: the number of occurrences of a character.\<close>

definition count_char :: "char \<Rightarrow> string \<Rightarrow> nat" where
  "count_char c s = length (filter (\<lambda>x. x = c) s)"

text \<open>\<^verbatim>\<open>s.includes(t)\<close>: \<^verbatim>\<open>t\<close> occurs in \<^verbatim>\<open>s\<close> as a contiguous run.\<close>

fun starts_with :: "string \<Rightarrow> string \<Rightarrow> bool" where
  "starts_with s [] = True"
| "starts_with [] (y # ys) = False"
| "starts_with (x # xs) (y # ys) = (x = y \<and> starts_with xs ys)"

fun js_includes :: "string \<Rightarrow> string \<Rightarrow> bool" where
  "js_includes [] t = (t = [])"
| "js_includes (x # xs) t = (starts_with (x # xs) t \<or> js_includes xs t)"

definition ends_with :: "string \<Rightarrow> string \<Rightarrow> bool" where
  "ends_with s t = starts_with (rev s) (rev t)"

text \<open>A number inside a template literal is written in decimal.\<close>

function nat_to_string :: "nat \<Rightarrow> string" where
  "nat_to_string n =
     (if n < 10 then [''0123456789'' ! n]
      else nat_to_string (n div 10) @ [''0123456789'' ! (n mod 10)])"
  by pat_completeness auto
termination
  by (relation "measure id") auto

declare nat_to_string.simps [simp del]

text \<open>
  \<^verbatim>\<open>toLowerCase\<close> on the letters A to Z. The verifier applies it to the two pieces of an
  address the validator has accepted, whose characters are all ASCII.
\<close>

definition to_lower_char :: "char \<Rightarrow> char" where
  "to_lower_char c =
     (case map_of (zip ''ABCDEFGHIJKLMNOPQRSTUVWXYZ'' ''abcdefghijklmnopqrstuvwxyz'') c of
        Some l \<Rightarrow> l
      | None \<Rightarrow> c)"

definition toLowerCase :: "string \<Rightarrow> string" where
  "toLowerCase s = map to_lower_char s"

section \<open>Static tables\<close>

text \<open>
  \<^verbatim>\<open>COMMON_TYPOS\<close> is an object literal; \<^verbatim>\<open>Object.entries\<close> walks its own keys in the order
  they are written, so the table is an association list in source order.
\<close>

definition COMMON_TYPOS :: "(string \<times> string) list" where
  "COMMON_TYPOS =
     [(''gmial.com'', ''gmail.com''),
      (''gmai.com'', ''gmail.com''),
      (''gmil.com'', ''gmail.com''),
      (''gmail.co'', ''gmail.com''),
      (''gmail.cm'', ''gmail.com''),
      (''ymail.com'', ''gmail.com''),
      (''yahooo.com'', ''yahoo.com''),
      (''yaho.com'', ''yahoo.com''),
      (''yahoo.co'', ''yahoo.com''),
      (''hotmial.com'', ''hotmail.com''),
      (''hotmail.co'', ''hotmail.com''),
      (''hotmil.com'', ''hotmail.com''),
      (''outlok.com'', ''outlook.com''),
      (''outlook.co'', ''outlook.com''),
      (''outloo.com'', ''outlook.com''),
      (''outlook.cm'', ''outlook.com''),
      (''goggle.com'', ''google.com''),
      (''icloud.cm'', ''icloud.com''),
      (''protonmail.co'', ''protonmail.com''),
      (''aol.com'', ''aol.com'')]"

text \<open>
  \<^verbatim>\<open>COMMON_TYPOS[domain]\<close> is a property read, so a name that is not an own key is looked up
  on \<^verbatim>\<open>Object.prototype\<close>. Its members are functions, and \<^verbatim>\<open>__proto__\<close> the prototype object
  itself: all truthy. The table gives each member with the text a template literal makes
  of it on Node.js.
\<close>

definition native_function :: "string \<Rightarrow> string" where
  "native_function name = ''function '' @ name @ ''() { [native code] }''"

definition Object_prototype :: "(string \<times> string) list" where
  "Object_prototype =
     [(''constructor'', native_function ''Object''),
      (''__defineGetter__'', native_function ''__defineGetter__''),
      (''__defineSetter__'', native_function ''__defineSetter__''),
      (''hasOwnProperty'', native_function ''hasOwnProperty''),
      (''__lookupGetter__'', native_function ''__lookupGetter__''),
      (''__lookupSetter__'', native_function ''__lookupSetter__''),
      (''isPrototypeOf'', native_function ''isPrototypeOf''),
      (''propertyIsEnumerable'', native_function ''propertyIsEnumerable''),
      (''toString'', native_function ''toString''),
      (''valueOf'', native_function ''valueOf''),
      (''__proto__'', ''[object Object]''),
      (''toLocaleString'', native_function ''toLocaleString'')]"

definition typo_lookup :: "string \<Rightarrow> string option" where
  "typo_lookup domain =
     (case map_of COMMON_TYPOS domain of
        Some correct \<Rightarrow> Some correct
      | None \<Rightarrow> map_of Object_prototype domain)"

definition DISPOSABLE_DOMAINS :: "string list" where
  "DISPOSABLE_DOMAINS =
     [''mailinator.com'', ''10minutemail.com'', ''guerrillamail.com'', ''temp-mail.org'',
      ''dropmail.me'', ''yopmail.com'', ''trashmail.com'', ''dispostable.com'',
      ''getnada.com'', ''maildrop.cc'']"

definition ROLE_ACCOUNTS :: "string list" where
  "ROLE_ACCOUNTS =
     [''admin'', ''administrator'', ''support'', ''info'', ''sales'', ''billing'', ''help'',
      ''contact'', ''webmaster'', ''sysadmin'', ''postmaster'', ''hostmaster'', ''root'',
      ''hr'', ''jobs'', ''office'', ''marketing'']"

section \<open>levenshteinDistance\<close>

text \<open>
  The source fills a matrix of \<^verbatim>\<open>str2.length + 1\<close> rows and \<^verbatim>\<open>str1.length + 1\<close> columns in
  place: row 0, then column 0, then the cells row by row, and returns the last cell.
  \<open>matrix_set m j i v\<close> is the assignment \<^verbatim>\<open>matrix[j][i] = v\<close>; every index the loops use
  is inside the matrix.
\<close>

definition matrix_set :: "nat list list \<Rightarrow> nat \<Rightarrow> nat \<Rightarrow> nat \<Rightarrow> nat list list" where
  "matrix_set m j i v = m[j := (m ! j)[i := v]]"

definition lev_cell :: "'a list \<Rightarrow> 'a list \<Rightarrow> nat \<Rightarrow> nat \<Rightarrow> nat list list \<Rightarrow> nat list list" where
  "lev_cell str1 str2 j i m =
     (let indicator = (if str1 ! (i - 1) = str2 ! (j - 1) then 0 else 1)
      in matrix_set m j i
           (min (m ! j ! (i - 1) + 1)
             (min (m ! (j - 1) ! i + 1) (m ! (j - 1) ! (i - 1) + indicator))))"

definition levenshteinDistance :: "'a list \<Rightarrow> 'a list \<Rightarrow> nat" where
  "levenshteinDistance str1 str2 =
     (let m0 = replicate (length str2 + 1) (replicate (length str1 + 1) 0);
          m1 = fold (\<lambda>i m. matrix_set m 0 i i) [0..<length str1 + 1] m0;
          m2 = fold (\<lambda>j m. matrix_set m j 0 j) [0..<length str2 + 1] m1;
          m3 = fold (\<lambda>j m. fold (lev_cell str1 str2 j) [1..<length str1 + 1] m)
                 [1..<length str2 + 1] m2
      in m3 ! length str2 ! length str1)"

text \<open>
  The recurrence the matrix tabulates: \<open>prefix_distance a b i j\<close> is the value the loops
  leave in \<^verbatim>\<open>matrix[j][i]\<close>, the distance between the first \<open>i\<close> code units of \<open>a\<close> and
  the first \<open>j\<close> of \<open>b\<close>. It is used in the proofs only.
\<close>

fun prefix_distance :: "'a list \<Rightarrow> 'a list \<Rightarrow> nat \<Rightarrow> nat \<Rightarrow> nat" where
  "prefix_distance a b 0 j = j"
| "prefix_distance a b (Suc i) 0 = Suc i"
| "prefix_distance a b (Suc i) (Suc j) =
     min (prefix_distance a b i (Suc j) + 1)
       (min (prefix_distance a b (Suc i) j + 1)
         (prefix_distance a b i j + (if a ! i = b ! j then 0 else 1)))"

text \<open>
  The loop invariant: the matrix keeps its shape, and row 0, column 0, every row above
  \<open>J\<close> and the cells of row \<open>J\<close> left of column \<open>I\<close> hold their final values.
\<close>

definition dp_inv :: "'a list \<Rightarrow> 'a list \<Rightarrow> nat list list \<Rightarrow> nat \<Rightarrow> nat \<Rightarrow> bool" where
  "dp_inv a b m J I \<longleftrightarrow>
     length m = length b + 1 \<and>
     (\<forall>r\<le>length b. length (m ! r) = length a + 1) \<and>
     (\<forall>j i. j \<le> length b \<longrightarrow> i \<le> length a \<longrightarrow>
        (j < J \<or> (j = J \<and> i < I) \<or> i = 0 \<or> j = 0) \<longrightarrow>
        m ! j ! i = prefix_distance a b i j)"

section \<open>validateEmailSyntax\<close>

text \<open>The function returns \<^verbatim>\<open>{ valid: true }\<close> or \<^verbatim>\<open>{ valid: false, error: ... }\<close>.\<close>

datatype syntax_result = Valid | Invalid string

text \<open>
  \<^verbatim>\<open>STRICT_EMAIL_REGEX\<close> is anchored at both ends: one or more characters of the local
  class, one \<^verbatim>\<open>@\<close>, then labels joined by dots. A label is one alphanumeric character,
  or two of them around up to 61 alphanumerics and hyphens. Neither class holds \<^verbatim>\<open>@\<close>
  and the label class holds no dot, so the only way to match is to cut the string at its
  \<^verbatim>\<open>@\<close> and the domain at its dots.
\<close>

definition is_alnum :: "char \<Rightarrow> bool" where
  "is_alnum c \<longleftrightarrow>
     c \<in> set ''abcdefghijklmnopqrstuvwxyzABCDEFGHIJKLMNOPQRSTUVWXYZ0123456789''"

definition is_local_char :: "char \<Rightarrow> bool" where
  "is_local_char c \<longleftrightarrow>
     is_alnum c \<or> c \<in> set (''.!#$%&*+/=?^_{|}~-'' @ [CHR 0x27, CHR 0x60])"

definition label_ok :: "string \<Rightarrow> bool" where
  "label_ok l \<longleftrightarrow>
     l \<noteq> [] \<and> length l \<le> 63 \<and> is_alnum (hd l) \<and> is_alnum (last l) \<and>
     list_all (\<lambda>c. is_alnum c \<or> c = CHR ''-'') l"

definition STRICT_EMAIL_REGEX_test :: "string \<Rightarrow> bool" where
  "STRICT_EMAIL_REGEX_test s =
     (case split_on CHR ''@'' s of
        [l, d] \<Rightarrow> l \<noteq> [] \<and> list_all is_local_char l \<and> list_all label_ok (split_on CHR ''.'' d)
      | _ \<Rightarrow> False)"

text \<open>
  The checks in source order. After the count check the trimmed string has exactly one
  \<^verbatim>\<open>@\<close>, so \<^verbatim>\<open>split\<close> yields two pieces and the destructuring binds both names; the last
  branch of the \<open>case\<close> is never taken (lemma \<open>split_on_two\<close>).
\<close>

definition validateEmailSyntax :: "js_value \<Rightarrow> syntax_result" where
  "validateEmailSyntax v =
     (if \<not> truthy v then Invalid ''Email is empty''
      else case v of
        JStr s \<Rightarrow>
          (let e = trim s in
           if length e > 254 then Invalid ''Email exceeds maximum length (254 characters)''
           else let atCount = count_char CHR ''@'' e in
           if atCount \<noteq> 1
           then Invalid (''Email must contain exactly one @ symbol (found '' @
                          nat_to_string atCount @ '')'')
           else if \<not> STRICT_EMAIL_REGEX_test e then Invalid ''Email format is invalid''
           else case split_on CHR ''@'' e of
             localPart # dmn # _ \<Rightarrow>
               if length localPart > 64
               then Invalid ''Local part exceeds maximum length (64 characters)''
               else if starts_with localPart ''.'' \<or> ends_with localPart ''.''
               then Invalid ''Local part cannot start or end with a dot''
               else if js_includes localPart ''..''
               then Invalid ''Local part cannot contain consecutive dots''
               else if \<not> js_includes dmn ''.''
               then Invalid ''Domain must contain at least one dot''
               else Valid
           | _ \<Rightarrow> Invalid ''Email format is invalid'')
      | _ \<Rightarrow> Invalid ''Email must be a string'')"

section \<open>suggestCorrection and getDidYouMean\<close>

record suggestion =
  suggested :: string
  distance :: nat

text \<open>
  One round of the fuzzy loop over \<^verbatim>\<open>Object.entries(COMMON_TYPOS)\<close>; the state is
  \<^verbatim>\<open>(bestMatch, bestDistance)\<close>.
\<close>

definition fuzzy_step ::
  "string \<Rightarrow> string \<Rightarrow> string \<times> string \<Rightarrow> suggestion option \<times> nat \<Rightarrow> suggestion option \<times> nat"
where
  "fuzzy_step localPart dmn entry st =
     (let d = levenshteinDistance dmn (fst entry) in
      if d \<le> snd st \<and> snd entry \<noteq> dmn
      then (Some \<lparr>suggested = localPart @ ''@'' @ snd entry, distance = d\<rparr>, d)
      else st)"

definition fuzzy_match :: "(string \<times> string) list \<Rightarrow> string \<Rightarrow> string \<Rightarrow> suggestion option" where
  "fuzzy_match table localPart dmn = fst (fold (fuzzy_step localPart dmn) table (None, 2))"

text \<open>
  The guard returns \<^verbatim>\<open>null\<close> unless the argument is a non-empty string holding an \<^verbatim>\<open>@\<close>, so
  the split has at least two pieces and the last branch of the \<open>case\<close> is never taken
  (lemma \<open>split_on_includes\<close>).
\<close>

definition suggestCorrection :: "js_value \<Rightarrow> suggestion option" where
  "suggestCorrection v =
     (case v of
        JStr s \<Rightarrow>
          if s = [] \<or> \<not> js_includes s ''@'' then None
          else (case split_on CHR ''@'' s of
                  localPart # dmn # _ \<Rightarrow>
                    (case typo_lookup dmn of
                       Some correct \<Rightarrow>
                         Some \<lparr>suggested = localPart @ ''@'' @ correct, distance = 0\<rparr>
                     | None \<Rightarrow> fuzzy_match COMMON_TYPOS localPart dmn)
                | _ \<Rightarrow> None)
      | _ \<Rightarrow> None)"

definition getDidYouMean :: "js_value \<Rightarrow> string option" where
  "getDidYouMean v =
     (case v of
        JStr s \<Rightarrow>
          if s = [] then None
          else (case suggestCorrection (JStr (trim s)) of
                  Some sg \<Rightarrow> Some (suggested sg)
                | None \<Rightarrow> None)
      | _ \<Rightarrow> None)"

section \<open>getMXRecords\<close>

text \<open>
  \<^verbatim>\<open>dns.resolveMx\<close> is outside the program: it answers with records or fails with a
  message. The function sorts the records by ascending priority (\<^verbatim>\<open>Array.prototype.sort\<close>
  is stable), keeps the host names, and wraps a failure in a new error.
\<close>

record mx_record =
  exchange :: string
  priority :: int

datatype dns_reply = DnsError string | DnsAnswer "mx_record list"

definition getMXRecords :: "(string \<Rightarrow> dns_reply) \<Rightarrow> string \<Rightarrow> string + string list" where
  "getMXRecords resolve d =
     (case resolve d of
        DnsError msg \<Rightarrow> Inl (''DNS lookup failed for '' @ d @ '': '' @ msg)
      | DnsAnswer records \<Rightarrow>
          if records = [] then Inr []
          else Inr (map exchange (sort_key priority records)))"

section \<open>verifyWithSMTP\<close>

text \<open>
  \<^verbatim>\<open>tryPort\<close> talks to one port and resolves exactly once with a \<open>probe\<close>. It stores a
  response code in two places only, the code 250 and a code from 400 to 599, and
  otherwise reports 0, so a response code is a natural number.
\<close>

record probe =
  success :: bool
  responseCode :: nat
  message :: string
  port :: nat

record verdict = probe +
  allPortsBlocked :: bool
  lastError :: "probe option"

definition ports :: "nat list" where
  "ports = [25, 587, 465]"

text \<open>
  The state shared by the three \<^verbatim>\<open>then\<close> callbacks: \<^verbatim>\<open>pending\<close>, \<^verbatim>\<open>resolved\<close>,
  \<^verbatim>\<open>results\<close>, and the value the promise was resolved with, if it was. \<^verbatim>\<open>mainResolve\<close>
  settles the promise the first time it is called and does nothing afterwards.
\<close>

record racer =
  pending :: int
  resolved :: bool
  results :: "probe list"
  settled :: "verdict option"

definition mainResolve :: "verdict \<Rightarrow> racer \<Rightarrow> racer" where
  "mainResolve v st = (case settled st of None \<Rightarrow> st\<lparr>settled := Some v\<rparr> | Some _ \<Rightarrow> st)"

definition not_blocked :: "probe \<Rightarrow> verdict" where
  "not_blocked r =
     \<lparr>success = success r, responseCode = responseCode r, message = message r,
      port = port r, allPortsBlocked = False, lastError = None\<rparr>"

text \<open>The callback, run once for each port in the order the ports finish.\<close>

definition on_result :: "racer \<Rightarrow> probe \<Rightarrow> racer" where
  "on_result st r =
     (if resolved st then st
      else
        let st1 = st\<lparr>results := results st @ [r], pending := pending st - 1\<rparr> in
        if success r then mainResolve (not_blocked r) (st1\<lparr>resolved := True\<rparr>)
        else if responseCode r \<ge> 550 \<and> responseCode r < 600
        then mainResolve (not_blocked r) (st1\<lparr>resolved := True\<rparr>)
        else if pending st1 = 0
        then
          let bestResult =
                (case find (\<lambda>r. responseCode r > 0) (results st1) of
                   Some b \<Rightarrow> b
                 | None \<Rightarrow> hd (results st1));
              allBlocked = list_all (\<lambda>r. responseCode r = 0) (results st1)
          in mainResolve
               \<lparr>success = success bestResult, responseCode = responseCode bestResult,
                message = (if allBlocked then ''All SMTP ports blocked'' else message bestResult),
                port = port bestResult, allPortsBlocked = allBlocked,
                lastError = Some bestResult\<rparr> st1
        else st1)"

text \<open>
  \<open>verifyWithSMTP outs\<close> is the state of the returned promise after the probes \<open>outs\<close>
  have finished in this order: \<open>None\<close> while it is still pending.
\<close>

definition verifyWithSMTP :: "probe list \<Rightarrow> verdict option" where
  "verifyWithSMTP outs =
     settled (foldl on_result
       \<lparr>pending = int (length ports), resolved = False, results = [], settled = None\<rparr> outs)"

definition interpretSMTPCode :: "nat \<Rightarrow> string" where
  "interpretSMTPCode code =
     (if code = 0 then ''connection_error''
      else if code \<ge> 250 \<and> code < 300 then ''mailbox_exists''
      else if code = 550 \<or> code = 551 \<or> code = 553 then ''mailbox_does_not_exist''
      else if code = 450 \<or> code = 451 \<or> code = 452 then ''greylisted''
      else if code = 421 then ''service_unavailable''
      else if code = 500 \<or> code = 501 \<or> code = 502 \<or> code = 503 \<or> code = 504
      then ''smtp_error''
      else ''unknown_response'')"

section \<open>verifyEmail\<close>

record options =
  checkMX :: bool
  checkSMTP :: bool
  timeout :: int
  maxAttempts :: int

definition default_options :: options where
  "default_options = \<lparr>checkMX = True, checkSMTP = True, timeout = 2500, maxAttempts = 2\<rparr>"

text \<open>
  What one call sees of the outside: the answer of the resolver for a domain; for the
  \<open>i\<close>-th server tried, the probes of its three ports in the order they finish; the
  clock at entry and at return (milliseconds), and the entry time as an ISO string.
\<close>

record world =
  resolveMx :: "string \<Rightarrow> dns_reply"
  tryPorts :: "nat \<Rightarrow> string \<Rightarrow> probe list"
  now_start :: int
  now_end :: int
  iso_start :: string

record step =
  step_valid :: "bool option"
  step_message :: string

record steps =
  syntax_step :: step
  mx_step :: step
  smtp_step :: step

record VerificationResult =
  email :: string
  result :: string
  resultcode :: nat
  subresult :: string
  domain :: string
  mxRecords :: "string list"
  executiontime :: int
  error :: "string option"
  timestamp :: string
  didyoumean :: "string option"
  smtpBlocked :: bool
  smtpChecked :: bool
  verificationMethod :: string
  disposable :: bool
  roleBased :: bool
  steps :: steps

text \<open>\<^verbatim>\<open>Math.round((Date.now() - startTime) / 1000)\<close>: halves round upwards.\<close>

definition elapsed :: "world \<Rightarrow> int" where
  "elapsed w = (now_end w - now_start w + 500) div 1000"

text \<open>
  \<^verbatim>\<open>email?.trim?.() || ""\<close>, evaluated while the result object is built, before the
  \<^verbatim>\<open>try\<close> block is entered. The optional call skips a missing member only: a member that
  is present and not a function is called, which throws a TypeError.
\<close>

definition email_field :: "js_value \<Rightarrow> string + string" where
  "email_field v =
     (case v of
        JStr s \<Rightarrow> Inr (trim s)
      | JObj TrimNotCallable \<Rightarrow> Inl ''email?.trim is not a function''
      | JObj (TrimThrows msg) \<Rightarrow> Inl msg
      | JObj (TrimReturns s) \<Rightarrow> Inr s
      | _ \<Rightarrow> Inr [])"

definition initial_result :: "world \<Rightarrow> string \<Rightarrow> VerificationResult" where
  "initial_result w em =
     \<lparr>email = em, result = ''unknown'', resultcode = 3, subresult = ''unknown'',
      domain = [], mxRecords = [], executiontime = 0, error = None,
      timestamp = iso_start w, didyoumean = None, smtpBlocked = False,
      smtpChecked = False, verificationMethod = ''unknown'', disposable = False,
      roleBased = False,
      steps = \<lparr>syntax_step = \<lparr>step_valid = Some False, step_message = ''Pending''\<rparr>,
               mx_step = \<lparr>step_valid = None, step_message = ''Skipped''\<rparr>,
               smtp_step = \<lparr>step_valid = None, step_message = ''Skipped''\<rparr>\<rparr>\<rparr>"

text \<open>The \<^verbatim>\<open>catch\<close> clause of the outer \<^verbatim>\<open>try\<close>, applied to the result as it stands.\<close>

definition on_error :: "world \<Rightarrow> VerificationResult \<Rightarrow> string \<Rightarrow> VerificationResult" where
  "on_error w r msg =
     r\<lparr>result := ''unknown'', resultcode := 3, subresult := ''verification_error'',
       error := Some msg, executiontime := elapsed w\<rparr>"

text \<open>
  The locals of the server loop. \<^verbatim>\<open>result.verificationMethod\<close> is the one field of the
  result the loop writes; it is carried here and written back after the loop.
\<close>

record loop_state =
  smtpSuccess :: bool
  lastResponseCode :: nat
  lastMessage :: string
  blocked :: bool
  methodUsed :: string

text \<open>
  One round of the loop on the verdict of a server; the flag says whether the round
  ends in \<^verbatim>\<open>break\<close>.
\<close>

definition loop_body :: "loop_state \<Rightarrow> verdict \<Rightarrow> loop_state \<times> bool" where
  "loop_body st v =
     (let st1 = st\<lparr>lastResponseCode := responseCode v, lastMessage := message v,
                   blocked := (if allPortsBlocked v then True else blocked st)\<rparr> in
      if success v then (st1\<lparr>smtpSuccess := True, methodUsed := ''smtp_verification''\<rparr>, True)
      else if responseCode v \<ge> 550 \<and> responseCode v < 600
      then (st1\<lparr>methodUsed := ''smtp_verification''\<rparr>, True)
      else (st1, False))"

text \<open>
  The loop over the servers still to try, \<open>i\<close> the index of the first of them. It
  awaits \<^verbatim>\<open>verifyWithSMTP\<close>, so it does not return while that promise is pending.
\<close>

fun smtp_loop ::
  "(nat \<Rightarrow> string \<Rightarrow> probe list) \<Rightarrow> nat \<Rightarrow> string list \<Rightarrow> loop_state \<Rightarrow> loop_state option"
where
  "smtp_loop probes i [] st = Some st"
| "smtp_loop probes i (mxServer # rest) st =
     (case verifyWithSMTP (probes i mxServer) of
        None \<Rightarrow> None
      | Some v \<Rightarrow>
          (case loop_body st v of
             (st', True) \<Rightarrow> Some st'
           | (st', False) \<Rightarrow> smtp_loop probes (Suc i) rest st'))"

text \<open>The statements after the loop: the classification of the last response.\<close>

definition classify :: "loop_state \<Rightarrow> VerificationResult \<Rightarrow> VerificationResult" where
  "classify st r =
     (let code = lastResponseCode st;
          r1 = r\<lparr>verificationMethod := methodUsed st, subresult := interpretSMTPCode code,
                 smtpBlocked := blocked st\<rparr>;
          r2 =
            (if smtpSuccess st
             then r1\<lparr>result := ''valid'', resultcode := 1,
                    steps := (steps r1)\<lparr>smtp_step :=
                      \<lparr>step_valid = Some True, step_message = ''Mailbox exists''\<rparr>\<rparr>\<rparr>
             else if blocked st
             then r1\<lparr>result := ''valid'', resultcode := 1,
                    subresult := ''smtp_blocked_but_mx_valid'',
                    verificationMethod := ''dns_lookup_fallback'',
                    error := Some
                      ''SMTP ports blocked (all ports timeout) - Verified via DNS MX records'',
                    steps := (steps r1)\<lparr>smtp_step :=
                      \<lparr>step_valid = None,
                       step_message = ''Blocked/Timeout (Fallback to DNS)''\<rparr>\<rparr>\<rparr>
             else if code \<ge> 450 \<and> code < 500
             then r1\<lparr>result := ''unknown'', resultcode := 3,
                    steps := (steps r1)\<lparr>smtp_step :=
                      \<lparr>step_valid = Some False,
                       step_message = ''Greylisted/Throttled ('' @ nat_to_string code @ '')''\<rparr>\<rparr>\<rparr>
             else if code \<ge> 550 \<and> code < 600
             then r1\<lparr>result := ''invalid'', resultcode := 6,
                    steps := (steps r1)\<lparr>smtp_step :=
                      \<lparr>step_valid = Some False,
                       step_message =
                         ''Mailbox not found / Rejected ('' @ nat_to_string code @ '')''\<rparr>\<rparr>\<rparr>
             else r1\<lparr>result := ''unknown'', resultcode := 3,
                    steps := (steps r1)\<lparr>smtp_step :=
                      \<lparr>step_valid = Some False,
                       step_message = ''Unknown response ('' @ nat_to_string code @ '')''\<rparr>\<rparr>\<rparr>)
      in if \<not> smtpSuccess st \<and> lastMessage st \<noteq> [] then r2\<lparr>error := Some (lastMessage st)\<rparr>
         else r2)"

text \<open>
  Step 4 and the final return. The loop runs over the first
  \<^verbatim>\<open>Math.min(maxAttempts, result.mxRecords.length)\<close> servers.
\<close>

definition smtp_stage :: "world \<Rightarrow> options \<Rightarrow> VerificationResult \<Rightarrow> VerificationResult promise" where
  "smtp_stage w opts r =
     (if checkSMTP opts \<and> length (mxRecords r) > 0
      then
        (case smtp_loop (tryPorts w) 0
                (take (nat (min (maxAttempts opts) (int (length (mxRecords r))))) (mxRecords r))
                \<lparr>smtpSuccess = False, lastResponseCode = 0, lastMessage = [],
                 blocked = False, methodUsed = verificationMethod r\<rparr> of
           None \<Rightarrow> Pending
         | Some st \<Rightarrow>
             Fulfilled ((classify st (r\<lparr>smtpChecked := True\<rparr>))\<lparr>executiontime := elapsed w\<rparr>))
      else if \<not> checkSMTP opts
      then Fulfilled
             (r\<lparr>result := ''valid'', resultcode := 1, subresult := ''syntax_and_mx_valid'',
                smtpChecked := False, verificationMethod := ''dns_lookup'',
                steps := (steps r)\<lparr>smtp_step :=
                  \<lparr>step_valid = None, step_message = ''Skipped by config''\<rparr>\<rparr>,
                executiontime := elapsed w\<rparr>)
      else Fulfilled (r\<lparr>executiontime := elapsed w\<rparr>))"

text \<open>Step 3 with its own \<^verbatim>\<open>try\<close> and \<^verbatim>\<open>catch\<close>, then step 4.\<close>

definition mx_stage ::
  "world \<Rightarrow> options \<Rightarrow> string \<Rightarrow> VerificationResult \<Rightarrow> VerificationResult promise"
where
  "mx_stage w opts d r =
     (if checkMX opts
      then
        (case getMXRecords (resolveMx w) d of
           Inr records \<Rightarrow>
             if length records = 0
             then Fulfilled
                    (r\<lparr>result := ''invalid'', resultcode := 6, subresult := ''no_mx_records'',
                       error := Some ''No MX records found for domain'',
                       verificationMethod := ''dns_lookup'',
                       steps := (steps r)\<lparr>mx_step :=
                         \<lparr>step_valid = Some False, step_message = ''No MX records found''\<rparr>\<rparr>,
                       executiontime := elapsed w\<rparr>)
             else smtp_stage w opts
                    (r\<lparr>mxRecords := records,
                       steps := (steps r)\<lparr>mx_step :=
                         \<lparr>step_valid = Some True,
                          step_message =
                            ''Found '' @ nat_to_string (length records) @ '' MX records''\<rparr>\<rparr>\<rparr>)
         | Inl msg \<Rightarrow>
             Fulfilled
               (r\<lparr>result := ''invalid'', resultcode := 6, subresult := ''dns_lookup_failed'',
                  error := Some msg, verificationMethod := ''dns_lookup'',
                  steps := (steps r)\<lparr>mx_step :=
                    \<lparr>step_valid = Some False, step_message = msg\<rparr>\<rparr>,
                  executiontime := elapsed w\<rparr>))
      else smtp_stage w opts r)"

text \<open>
  Steps 1 and 2. The result object is built first, outside the \<^verbatim>\<open>try\<close>: an exception
  there rejects the promise. Inside the \<^verbatim>\<open>try\<close>, a value that passes the validator is a
  string with one \<^verbatim>\<open>@\<close>, so \<^verbatim>\<open>email.trim()\<close> and the destructuring cannot fail; the two
  branches that model their failure hand the TypeError to the \<^verbatim>\<open>catch\<close> clause and are
  never taken.
\<close>

definition typo_stage ::
  "world \<Rightarrow> options \<Rightarrow> string \<Rightarrow> VerificationResult \<Rightarrow> VerificationResult promise"
where
  "typo_stage w opts e r =
     (case split_on CHR ''@'' e of
        localPart # d # _ \<Rightarrow>
          (let r1 = r\<lparr>domain := d,
                       disposable := (toLowerCase d \<in> set DISPOSABLE_DOMAINS),
                       roleBased := (toLowerCase localPart \<in> set ROLE_ACCOUNTS)\<rparr>;
               typo = (case suggestCorrection (JStr e) of
                         Some sg \<Rightarrow> if suggested sg \<noteq> e then Some (suggested sg) else None
                       | None \<Rightarrow> None)
           in case typo of
                Some s \<Rightarrow>
                  Fulfilled
                    (r1\<lparr>didyoumean := Some s, result := ''invalid'', resultcode := 6,
                        subresult := ''typo_detected'',
                        verificationMethod := ''typo_detection'',
                        executiontime := elapsed w\<rparr>)
              | None \<Rightarrow> mx_stage w opts d r1)
      | _ \<Rightarrow>
          Fulfilled
            (on_error w r ''Cannot read properties of undefined (reading 'toLowerCase')''))"

definition verifyEmail :: "world \<Rightarrow> js_value \<Rightarrow> options \<Rightarrow> VerificationResult promise" where
  "verifyEmail w v opts =
     (case email_field v of
        Inl exn \<Rightarrow> Rejected exn
      | Inr em \<Rightarrow>
          (let r = initial_result w em in
           case validateEmailSyntax v of
             Invalid msg \<Rightarrow>
               Fulfilled
                 (r\<lparr>result := ''invalid'', resultcode := 6, subresult := ''invalid_syntax'',
                    error := Some msg, verificationMethod := ''syntax_validation'',
                    steps := (steps r)\<lparr>syntax_step :=
                      \<lparr>step_valid = Some False, step_message = msg\<rparr>\<rparr>,
                    executiontime := elapsed w\<rparr>)
           | Valid \<Rightarrow>
               (let r1 = r\<lparr>steps := (steps r)\<lparr>syntax_step :=
                            \<lparr>step_valid = Some True, step_message = ''Format is valid''\<rparr>\<rparr>\<rparr>
                in case v of
                     JStr s \<Rightarrow> typo_stage w opts (trim s) r1
                   | _ \<Rightarrow> Fulfilled (on_error w r1 ''email.trim is not a function''))))"

section \<open>Notions used to state the properties\<close>

text \<open>
  The candidates of the fuzzy loop for a domain: the entries within distance 2 whose
  correction differs from the domain. \<open>least_distance\<close> is the least distance among
  them (2 when there are none); \<open>first_minimal\<close> and \<open>last_minimal\<close> are the first and
  the last candidate, in table order, at that distance.
\<close>

definition eligible :: "string \<Rightarrow> (string \<times> string) list \<Rightarrow> (string \<times> string) list" where
  "eligible d table =
     filter (\<lambda>entry. levenshteinDistance d (fst entry) \<le> 2 \<and> snd entry \<noteq> d) table"

definition least_distance :: "string \<Rightarrow> (string \<times> string) list \<Rightarrow> nat" where
  "least_distance d table =
     fold (\<lambda>entry m. min m (levenshteinDistance d (fst entry))) (eligible d table) 2"

definition minimal_candidates :: "string \<Rightarrow> (string \<times> string) list \<Rightarrow> (string \<times> string) list" where
  "minimal_candidates d table =
     filter (\<lambda>entry. levenshteinDistance d (fst entry) = least_distance d table)
       (eligible d table)"

definition first_minimal :: "string \<Rightarrow> (string \<times> string) list \<Rightarrow> (string \<times> string) option" where
  "first_minimal d table =
     (case minimal_candidates d table of [] \<Rightarrow> None | entry # _ \<Rightarrow> Some entry)"

definition last_minimal :: "string \<Rightarrow> (string \<times> string) list \<Rightarrow> (string \<times> string) option" where
  "last_minimal d table =
     (case rev (minimal_candidates d table) of [] \<Rightarrow> None | entry # _ \<Rightarrow> Some entry)"

definition suggestion_for :: "string \<Rightarrow> string \<Rightarrow> string \<times> string \<Rightarrow> suggestion" where
  "suggestion_for localPart d entry =
     \<lparr>suggested = localPart @ ''@'' @ snd entry,
      distance = levenshteinDistance d (fst entry)\<rparr>"

text \<open>Step 2 of \<^verbatim>\<open>verifyEmail\<close> lets an address pass when there is no differing suggestion.\<close>

definition passes_typo_check :: "string \<Rightarrow> bool" where
  "passes_typo_check e =
     (case suggestCorrection (JStr e) of Some sg \<Rightarrow> suggested sg = e | None \<Rightarrow> True)"

text \<open>
  \<open>reaches_smtp w s opts servers\<close>: the call \<^verbatim>\<open>verifyEmail(s, opts)\<close> gets as far as the
  server loop, and \<open>servers\<close> are the mail exchangers the loop is bounded to.
\<close>

definition reaches_smtp :: "world \<Rightarrow> string \<Rightarrow> options \<Rightarrow> string list \<Rightarrow> bool" where
  "reaches_smtp w s opts servers \<longleftrightarrow>
     validateEmailSyntax (JStr s) = Valid \<and> passes_typo_check (trim s) \<and>
     checkMX opts \<and> checkSMTP opts \<and>
     (case split_on CHR ''@'' (trim s) of
        localPart # d # _ \<Rightarrow>
          (case getMXRecords (resolveMx w) d of
             Inr records \<Rightarrow>
               records \<noteq> [] \<and>
               servers = take (nat (min (maxAttempts opts) (int (length records)))) records
           | Inl _ \<Rightarrow> False)
      | _ \<Rightarrow> False)"

text \<open>
  The verdicts the server loop obtains, in order, from the \<open>i\<close>-th server on: it stops
  after a success or a code from 550 to 599. \<open>None\<close> when a verdict never arrives.
\<close>

fun verdicts_obtained ::
  "(nat \<Rightarrow> string \<Rightarrow> probe list) \<Rightarrow> nat \<Rightarrow> string list \<Rightarrow> verdict list option"
where
  "verdicts_obtained probes i [] = Some []"
| "verdicts_obtained probes i (mxServer # rest) =
     (case verifyWithSMTP (probes i mxServer) of
        None \<Rightarrow> None
      | Some v \<Rightarrow>
          if success v \<or> (responseCode v \<ge> 550 \<and> responseCode v < 600) then Some [v]
          else (case verdicts_obtained probes (Suc i) rest of
                  None \<Rightarrow> None
                | Some vs \<Rightarrow> Some (v # vs)))"

definition absorb :: "loop_state \<Rightarrow> verdict \<Rightarrow> loop_state" where
  "absorb st v = fst (loop_body st v)"

text \<open>
  The result object as it stands after steps 1 and 2 have let the trimmed address \<open>e\<close>,
  with local part \<open>l\<close> and domain \<open>d\<close>, pass; and after step 3 has stored the records.
\<close>

definition after_typo_check :: "world \<Rightarrow> string \<Rightarrow> string \<Rightarrow> string \<Rightarrow> VerificationResult" where
  "after_typo_check w e l d =
     (initial_result w e)
       \<lparr>steps := (steps (initial_result w e))\<lparr>syntax_step :=
          \<lparr>step_valid = Some True, step_message = ''Format is valid''\<rparr>\<rparr>,
        domain := d,
        disposable := (toLowerCase d \<in> set DISPOSABLE_DOMAINS),
        roleBased := (toLowerCase l \<in> set ROLE_ACCOUNTS)\<rparr>"

definition after_mx_check ::
  "world \<Rightarrow> string \<Rightarrow> string \<Rightarrow> string \<Rightarrow> string list \<Rightarrow> VerificationResult"
where
  "after_mx_check w e l d records =
     (after_typo_check w e l d)
       \<lparr>mxRecords := records,
        steps := (steps (after_typo_check w e l d))\<lparr>mx_step :=
          \<lparr>step_valid = Some True,
           step_message = ''Found '' @ nat_to_string (length records) @ '' MX records''\<rparr>\<rparr>\<rparr>"

definition loop_start :: "VerificationResult \<Rightarrow> loop_state" where
  "loop_start r =
     \<lparr>smtpSuccess = False, lastResponseCode = 0, lastMessage = [], blocked = False,
      methodUsed = verificationMethod r\<rparr>"

text \<open>The blocked-fallback classification, and the three classification fields.\<close>

definition blocked_fallback :: "VerificationResult \<Rightarrow> bool" where
  "blocked_fallback r \<longleftrightarrow>
     result r = ''valid'' \<and> resultcode r = 1 \<and>
     subresult r = ''smtp_blocked_but_mx_valid'' \<and>
     verificationMethod r = ''dns_lookup_fallback'' \<and>
     step_valid (smtp_step (steps r)) = None \<and> error r \<noteq> None"

definition classification :: "VerificationResult \<Rightarrow> string \<times> nat \<times> string" where
  "classification r = (result r, resultcode r, subresult r)"

text \<open>
  The probe the reduction over all finished ports picks: the first with a nonzero
  response code, or the first of all when there is none.
\<close>

definition best_probe :: "probe list \<Rightarrow> probe" where
  "best_probe outs =
     (case find (\<lambda>r. responseCode r \<noteq> 0) outs of Some b \<Rightarrow> b | None \<Rightarrow> hd outs)"

text \<open>Sample probes, and worlds built from them, for the concrete evaluations.\<close>

definition timed_out :: "nat \<Rightarrow> probe" where
  "timed_out p =
     \<lparr>success = False, responseCode = 0,
      message = ''Port '' @ nat_to_string p @ '': timeout'', port = p\<rparr>"

definition replied :: "nat \<Rightarrow> nat \<Rightarrow> string \<Rightarrow> probe" where
  "replied p code line =
     \<lparr>success = (code \<ge> 250 \<and> code < 300), responseCode = code, message = line, port = p\<rparr>"

definition all_timed_out :: "probe list" where
  "all_timed_out = [timed_out 25, timed_out 587, timed_out 465]"

definition two_exchangers :: "string \<Rightarrow> dns_reply" where
  "two_exchangers d =
     DnsAnswer [\<lparr>exchange = ''mx2.example.com'', priority = 20\<rparr>,
                \<lparr>exchange = ''mx1.example.com'', priority = 10\<rparr>]"

definition sample_world :: "(nat \<Rightarrow> string \<Rightarrow> probe list) \<Rightarrow> world" where
  "sample_world probes =
     \<lparr>resolveMx = two_exchangers, tryPorts = probes, now_start = 0, now_end = 1700,
      iso_start = ''2024-01-01T00:00:00.000Z''\<rparr>"

text \<open>Every server answers the recipient command on port 25 with the given line.\<close>

definition rejecting :: "nat \<Rightarrow> string \<Rightarrow> nat \<Rightarrow> string \<Rightarrow> probe list" where
  "rejecting code line i mxServer = [replied 25 code line, timed_out 587, timed_out 465]"

text \<open>The verdicts these probes reduce to.\<close>

definition silent_verdict :: verdict where
  "silent_verdict =
     \<lparr>success = False, responseCode = 0, message = ''All SMTP ports blocked'', port = 25,
      allPortsBlocked = True, lastError = Some (timed_out 25)\<rparr>"

definition reply_verdict :: "nat \<Rightarrow> string \<Rightarrow> verdict" where
  "reply_verdict code line =
     \<lparr>success = False, responseCode = code, message = line, port = 25,
      allPortsBlocked = False,
      lastError = (if code \<ge> 550 \<and> code < 600 then None else Some (replied 25 code line))\<rparr>"

definition sample_servers :: "string list" where
  "sample_servers = [''mx1.example.com'', ''mx2.example.com'']"

text \<open>The first server is silent on all ports; the later ones answer as above.\<close>

definition blocked_then :: "nat \<Rightarrow> string \<Rightarrow> nat \<Rightarrow> string \<Rightarrow> probe list" where
  "blocked_then code line i mxServer =
     (if i = 0 then all_timed_out else rejecting code line i mxServer)"

section \<open>Properties of levenshteinDistance\<close>

text \<open>Writing one cell keeps the shape of the matrix and changes that cell only.\<close>

lemma length_matrix_set [simp]: "length (matrix_set m j i v) = length m"
  by (simp add: matrix_set_def)

lemma length_row_matrix_set [simp]: "length (matrix_set m j i v ! r) = length (m ! r)"
  by (cases "j < length m"; cases "r = j") (simp_all add: matrix_set_def list_update_beyond)

lemma nth_matrix_set:
  "j < length m \<Longrightarrow> i < length (m ! j) \<Longrightarrow>
   matrix_set m j i v ! j' ! i' = (if j' = j \<and> i' = i then v else m ! j' ! i')"
  by (cases "j' = j"; cases "i' = i") (simp_all add: matrix_set_def)

lemma prefix_distance_zero_right [simp]: "prefix_distance a b i 0 = i"
  by (cases i) simp_all

lemma prefix_distance_sym: "prefix_distance a b i j = prefix_distance b a j i"
  by (induction a b i j rule: prefix_distance.induct) (auto simp: min.commute min.left_commute)

lemma prefix_distance_refl: "prefix_distance a a n n = 0"
  by (induction n) simp_all


lemma dims_fold_set:
  "length (fold (\<lambda>i m. matrix_set m (g i) (h i) (f i m)) xs m) = length m \<and>
   length (fold (\<lambda>i m. matrix_set m (g i) (h i) (f i m)) xs m ! r) = length (m ! r)"
  by (induction xs arbitrary: m) simp_all

lemma fold_row0:
  "0 < length m \<Longrightarrow> n \<le> length (m ! 0) \<Longrightarrow>
   fold (\<lambda>i m. matrix_set m 0 i i) [0..<n] m ! j ! i =
     (if j = 0 \<and> i < n then i else m ! j ! i)"
proof (induction n)
  case 0
  then show ?case by simp
next
  case (Suc n)
  let ?m = "fold (\<lambda>i m. matrix_set m 0 i i) [0..<n] m"
  have d: "length ?m = length m" "length (?m ! 0) = length (m ! 0)"
    using dims_fold_set [of "\<lambda>_. 0" "\<lambda>i. i" "\<lambda>i m. i" "[0..<n]" m 0] by simp_all
  show ?case using Suc d by (auto simp: nth_matrix_set)
qed

lemma fold_col0:
  "n \<le> length m \<Longrightarrow> \<forall>r<n. 0 < length (m ! r) \<Longrightarrow>
   fold (\<lambda>j m. matrix_set m j 0 j) [0..<n] m ! j ! i =
     (if i = 0 \<and> j < n then j else m ! j ! i)"
proof (induction n)
  case 0
  then show ?case by simp
next
  case (Suc n)
  let ?m = "fold (\<lambda>j m. matrix_set m j 0 j) [0..<n] m"
  have d: "length ?m = length m" "length (?m ! n) = length (m ! n)"
    using dims_fold_set [of "\<lambda>j. j" "\<lambda>_. 0" "\<lambda>j m. j" "[0..<n]" m n] by simp_all
  show ?case using Suc d by (auto simp: nth_matrix_set)
qed


lemma dp_inv_cell:
  assumes inv: "dp_inv a b m (Suc j) (Suc i)" and j: "Suc j \<le> length b" and i: "Suc i \<le> length a"
  shows "dp_inv a b (lev_cell a b (Suc j) (Suc i) m) (Suc j) (Suc (Suc i))"
proof -
  let ?v = "prefix_distance a b (Suc i) (Suc j)"
  have len: "length m = length b + 1" and rows: "\<And>r. r \<le> length b \<Longrightarrow> length (m ! r) = length a + 1"
    and cells: "\<And>j' i'. j' \<le> length b \<Longrightarrow> i' \<le> length a \<Longrightarrow>
        (j' < Suc j \<or> (j' = Suc j \<and> i' < Suc i) \<or> i' = 0 \<or> j' = 0) \<Longrightarrow>
        m ! j' ! i' = prefix_distance a b i' j'"
    using inv unfolding dp_inv_def by blast+
  have left: "m ! Suc j ! i = prefix_distance a b i (Suc j)"
    using cells [of "Suc j" i] j i by simp
  have up: "m ! j ! Suc i = prefix_distance a b (Suc i) j"
    using cells [of j "Suc i"] j i by simp
  have diag: "m ! j ! i = prefix_distance a b i j"
    using cells [of j i] j i by simp
  have step: "lev_cell a b (Suc j) (Suc i) m = matrix_set m (Suc j) (Suc i) ?v"
    by (simp add: lev_cell_def left up diag)
  have inb: "Suc j < length m" "Suc i < length (m ! Suc j)"
    using len rows [of "Suc j"] j i by simp_all
  show ?thesis
    unfolding dp_inv_def step
  proof (intro conjI allI impI)
    show "length (matrix_set m (Suc j) (Suc i) ?v) = length b + 1"
      using len by simp
  next
    fix r assume "r \<le> length b"
    then show "length (matrix_set m (Suc j) (Suc i) ?v ! r) = length a + 1"
      using rows by simp
  next
    fix j' i'
    assume b: "j' \<le> length b" "i' \<le> length a"
      and c: "j' < Suc j \<or> (j' = Suc j \<and> i' < Suc (Suc i)) \<or> i' = 0 \<or> j' = 0"
    show "matrix_set m (Suc j) (Suc i) ?v ! j' ! i' = prefix_distance a b i' j'"
    proof (cases "j' = Suc j \<and> i' = Suc i")
      case True
      then show ?thesis using inb by (simp add: nth_matrix_set)
    next
      case False
      then have "j' < Suc j \<or> (j' = Suc j \<and> i' < Suc i) \<or> i' = 0 \<or> j' = 0"
        using c by auto
      then have "m ! j' ! i' = prefix_distance a b i' j'"
        using cells b by blast
      then show ?thesis using False inb by (simp add: nth_matrix_set)
    qed
  qed
qed

lemma dp_inv_row:
  assumes "dp_inv a b m (Suc j) 1" and "Suc j \<le> length b" and "n \<le> length a"
  shows "dp_inv a b (fold (lev_cell a b (Suc j)) [1..<Suc n] m) (Suc j) (Suc n)"
  using assms(3)
proof (induction n)
  case 0
  then show ?case using assms(1) by simp
next
  case (Suc n)
  then have "dp_inv a b (fold (lev_cell a b (Suc j)) [1..<Suc n] m) (Suc j) (Suc n)"
    by simp
  from dp_inv_cell [OF this assms(2)] Suc.prems show ?case
    by simp
qed

lemma dp_inv_next_row:
  "dp_inv a b m j (Suc (length a)) \<Longrightarrow> dp_inv a b m (Suc j) 1"
  unfolding dp_inv_def by (intro conjI allI impI; elim conjE) (simp, simp, metis less_Suc_eq less_Suc_eq_le less_one)

lemma dp_inv_rows:
  assumes "dp_inv a b m 1 1" and "n \<le> length b"
  shows "dp_inv a b (fold (\<lambda>j m. fold (lev_cell a b j) [1..<Suc (length a)] m) [1..<Suc n] m)
           (Suc n) 1"
  using assms(2)
proof (induction n)
  case 0
  then show ?case using assms(1) by simp
next
  case (Suc n)
  let ?m = "fold (\<lambda>j m. fold (lev_cell a b j) [1..<Suc (length a)] m) [1..<Suc n] m"
  have e: "[1..<Suc (Suc n)] = [1..<Suc n] @ [Suc n]"
    by simp
  have "dp_inv a b ?m (Suc n) 1"
    using Suc by simp
  then have "dp_inv a b (fold (lev_cell a b (Suc n)) [1..<Suc (length a)] ?m) (Suc n) (Suc (length a))"
    using Suc.prems by (intro dp_inv_row) simp_all
  then have "dp_inv a b (fold (lev_cell a b (Suc n)) [1..<Suc (length a)] ?m) (Suc (Suc n)) 1"
    by (rule dp_inv_next_row)
  then show ?case
    unfolding e by (simp only: fold_append fold_Cons fold_Nil comp_apply id_apply)
qed

lemma dp_inv_init:
  "dp_inv a b
     (fold (\<lambda>j m. matrix_set m j 0 j) [0..<Suc (length b)]
        (fold (\<lambda>i m. matrix_set m 0 i i) [0..<Suc (length a)]
           (replicate (Suc (length b)) (replicate (Suc (length a)) 0)))) 1 1"
proof -
  let ?m0 = "replicate (Suc (length b)) (replicate (Suc (length a)) (0::nat))"
  let ?m1 = "fold (\<lambda>i m. matrix_set m 0 i i) [0..<Suc (length a)] ?m0"
  let ?m2 = "fold (\<lambda>j m. matrix_set m j 0 j) [0..<Suc (length b)] ?m1"
  have d0: "length ?m0 = Suc (length b)" "\<And>r. r \<le> length b \<Longrightarrow> length (?m0 ! r) = Suc (length a)"
    by (simp_all del: replicate.simps)
  have d1: "length ?m1 = Suc (length b)" "\<And>r. r \<le> length b \<Longrightarrow> length (?m1 ! r) = Suc (length a)"
    using dims_fold_set [of "\<lambda>_. 0" "\<lambda>i. i" "\<lambda>i m. i" "[0..<Suc (length a)]" ?m0] d0
    by (simp_all del: replicate.simps upt_Suc)
  have d2: "length ?m2 = Suc (length b)" "\<And>r. r \<le> length b \<Longrightarrow> length (?m2 ! r) = Suc (length a)"
    using dims_fold_set [of "\<lambda>j. j" "\<lambda>_. 0" "\<lambda>j m. j" "[0..<Suc (length b)]" ?m1] d1
    by (simp_all del: replicate.simps upt_Suc)
  have c1: "\<And>j i. ?m1 ! j ! i = (if j = 0 \<and> i < Suc (length a) then i else ?m0 ! j ! i)"
    by (rule fold_row0) (simp_all del: replicate.simps add: d0)
  have c2: "\<And>j i. ?m2 ! j ! i = (if i = 0 \<and> j < Suc (length b) then j else ?m1 ! j ! i)"
    by (rule fold_col0) (simp_all add: d1 del: replicate.simps upt_Suc)
  show ?thesis
    unfolding dp_inv_def
  proof (intro conjI allI impI)
    show "length ?m2 = length b + 1" using d2 by simp
  next
    fix r assume "r \<le> length b" then show "length (?m2 ! r) = length a + 1" using d2 by simp
  next
    fix j i assume "j \<le> length b" "i \<le> length a"
      and "j < 1 \<or> (j = 1 \<and> i < 1) \<or> i = 0 \<or> j = 0"
    then show "?m2 ! j ! i = prefix_distance a b i j"
      unfolding c2 c1 by auto
  qed
qed

lemma levenshteinDistance_prefix_distance:
  "levenshteinDistance a b = prefix_distance a b (length a) (length b)"
proof -
  have "dp_inv a b
     (fold (\<lambda>j m. fold (lev_cell a b j) [1..<Suc (length a)] m) [1..<Suc (length b)]
     (fold (\<lambda>j m. matrix_set m j 0 j) [0..<Suc (length b)]
        (fold (\<lambda>i m. matrix_set m 0 i i) [0..<Suc (length a)]
           (replicate (Suc (length b)) (replicate (Suc (length a)) 0))))) (Suc (length b)) 1"
    by (rule dp_inv_rows [OF dp_inv_init]) simp
  then show ?thesis
    unfolding levenshteinDistance_def dp_inv_def Let_def Suc_eq_plus1 by simp
qed

text \<open>
  Claim C9. For all strings: the distance from a string to itself is 0; the distance is
  symmetric in its two arguments; and the distance from the empty string to a string is
  the length of that string.
\<close>

theorem levenshteinDistance_laws:
  "levenshteinDistance s s = 0 \<and>
   levenshteinDistance a b = levenshteinDistance b a \<and>
   levenshteinDistance [] t = length t"
  by (simp add: levenshteinDistance_prefix_distance prefix_distance_refl
      prefix_distance_sym [of a b])

section \<open>Properties of the string operations\<close>

lemma split_on_nonempty [simp]: "split_on c s \<noteq> []"
  by (induction s) (simp_all add: Let_def)

lemma length_split_on: "length (split_on c s) = Suc (count_char c s)"
  by (induction s) (simp_all add: count_char_def Let_def)

lemma split_on_two: "count_char c s = 1 \<Longrightarrow> \<exists>l d. split_on c s = [l, d]"
proof -
  assume "count_char c s = 1"
  then have "length (split_on c s) = 2"
    by (simp add: length_split_on)
  then show ?thesis
    by (cases "split_on c s" rule: list.exhaust; simp)
       (metis length_0_conv length_Suc_conv Suc_inject One_nat_def)
qed

lemma count_char_zero: "count_char c s = 0 \<longleftrightarrow> c \<notin> set s"
  by (induction s) (auto simp: count_char_def)

lemma js_includes_single: "js_includes s [c] \<longleftrightarrow> c \<in> set s"
  by (induction s) auto

lemma split_on_includes: "c \<in> set s \<Longrightarrow> \<exists>l d rest. split_on c s = l # d # rest"
proof -
  assume "c \<in> set s"
  then have "count_char c s \<noteq> 0"
    by (simp add: count_char_zero)
  then have "2 \<le> length (split_on c s)"
    by (simp add: length_split_on)
  then show ?thesis
    by (cases "split_on c s"; simp) (metis Suc_le_length_iff)
qed

lemma split_on_pieces_includes: "split_on c s = l # d # rest \<Longrightarrow> c \<in> set s"
proof (rule ccontr)
  assume a: "split_on c s = l # d # rest" and "c \<notin> set s"
  then have "count_char c s = 0" by (simp add: count_char_zero)
  then have "length (split_on c s) = 1" by (simp add: length_split_on)
  with a show False by simp
qed

lemma split_on_notin: "c \<notin> set t \<Longrightarrow> split_on c t = [t]"
  by (induction t) (auto simp: Let_def)

lemma split_on_append: "c \<notin> set l \<Longrightarrow> split_on c (l @ c # t) = l # split_on c t"
  by (induction l) (auto simp: Let_def)

lemma filter_dropWhile_disjoint:
  "(\<And>x. Q x \<Longrightarrow> \<not> P x) \<Longrightarrow> filter P (dropWhile Q s) = filter P s"
  by (induction s) auto

lemma count_char_trim: "\<not> is_ws c \<Longrightarrow> count_char c (trim s) = count_char c s"
proof -
  assume nw: "\<not> is_ws c"
  have d: "\<And>t. filter (\<lambda>x. x = c) (dropWhile is_ws t) = filter (\<lambda>x. x = c) t"
    by (rule filter_dropWhile_disjoint) (use nw in auto)
  have r: "\<And>t. length (filter (\<lambda>x. x = c) (rev t)) = length (filter (\<lambda>x. x = c) t)"
    by (simp flip: rev_filter)
  have "length (filter (\<lambda>x. x = c) (rev (dropWhile is_ws (rev (dropWhile is_ws s))))) =
        length (filter (\<lambda>x. x = c) (dropWhile is_ws (rev (dropWhile is_ws s))))"
    by (rule r)
  also have "\<dots> = length (filter (\<lambda>x. x = c) (rev (dropWhile is_ws s)))"
    by (simp only: d)
  also have "\<dots> = length (filter (\<lambda>x. x = c) (dropWhile is_ws s))"
    by (rule r)
  also have "\<dots> = length (filter (\<lambda>x. x = c) s)"
    by (simp only: d)
  finally show ?thesis
    by (simp add: count_char_def trim_def)
qed

lemma at_not_ws: "\<not> is_ws CHR ''@''"
  by (simp add: is_ws_def)

section \<open>Properties of validateEmailSyntax\<close>

text \<open>
  Claim C8, as amended. For every non-empty string whose trimmed form has at most 254
  characters and whose number of \<^verbatim>\<open>@\<close> characters is not exactly 1, the validator returns
  the invalid verdict with the message \<^verbatim>\<open>Email must contain exactly one @ symbol (found N)\<close>,
  \<^verbatim>\<open>N\<close> the number found. The emptiness check and the length check come first in the
  source, so the empty string and an over-long string get their own messages.
\<close>

theorem validateEmailSyntax_at_count:
  assumes "s \<noteq> []" and "length (trim s) \<le> 254" and "count_char CHR ''@'' s \<noteq> 1"
  shows "validateEmailSyntax (JStr s) =
           Invalid (''Email must contain exactly one @ symbol (found '' @
                     nat_to_string (count_char CHR ''@'' s) @ '')'')"
  using assms by (simp add: validateEmailSyntax_def Let_def count_char_trim at_not_ws)

text \<open>The theorem at \<^verbatim>\<open>user@@example.com\<close>, which has two \<^verbatim>\<open>@\<close>.\<close>

theorem validateEmailSyntax_at_count_witness:
  "''user@@example.com'' \<noteq> [] \<and> length (trim ''user@@example.com'') \<le> 254 \<and>
   count_char CHR ''@'' ''user@@example.com'' \<noteq> 1 \<and>
   validateEmailSyntax (JStr ''user@@example.com'') =
     Invalid ''Email must contain exactly one @ symbol (found 2)''"
proof -
  have h1: "''user@@example.com'' \<noteq> []" by simp
  have h2: "length (trim ''user@@example.com'') \<le> 254" by code_simp
  have h3: "count_char CHR ''@'' ''user@@example.com'' \<noteq> 1" by code_simp
  have n: "''Email must contain exactly one @ symbol (found '' @
             nat_to_string (count_char CHR ''@'' ''user@@example.com'') @ '')'' =
           ''Email must contain exactly one @ symbol (found 2)''"
    by code_simp
  show ?thesis
    using validateEmailSyntax_at_count [OF h1 h2 h3] h1 h2 h3 unfolding n by blast
qed

text \<open>
  The claim as first stated fails at the empty string: it has no \<^verbatim>\<open>@\<close>, and the message
  is \<^verbatim>\<open>Email is empty\<close>, which does not mention the rule.
\<close>

theorem validateEmailSyntax_empty_counterexample:
  "count_char CHR ''@'' [] \<noteq> 1 \<and> validateEmailSyntax (JStr []) = Invalid ''Email is empty'' \<and>
   \<not> js_includes ''Email is empty'' ''exactly one @ symbol''"
  by code_simp

section \<open>Properties of suggestCorrection and getDidYouMean\<close>

lemma typo_lookup_own: "map_of COMMON_TYPOS d = Some c \<Longrightarrow> typo_lookup d = Some c"
  by (simp add: typo_lookup_def)

lemma suggestCorrection_exact:
  assumes "split_on CHR ''@'' e = l # d # rest" and "typo_lookup d = Some c"
  shows "suggestCorrection (JStr e) = Some \<lparr>suggested = l @ ''@'' @ c, distance = 0\<rparr>"
proof -
  have "CHR ''@'' \<in> set e"
    using assms(1) by (rule split_on_pieces_includes)
  then have "e \<noteq> []" and "js_includes e ''@''"
    by (auto simp: js_includes_single)
  then show ?thesis
    using assms by (simp add: suggestCorrection_def)
qed

lemma getDidYouMean_exact:
  assumes "split_on CHR ''@'' (trim e) = l # d # rest" and "typo_lookup d = Some c"
  shows "getDidYouMean (JStr e) = Some (l @ ''@'' @ c)"
proof -
  have "CHR ''@'' \<in> set (trim e)"
    using assms(1) by (rule split_on_pieces_includes)
  then have "e \<noteq> []"
    by (auto simp: trim_def)
  then show ?thesis
    using suggestCorrection_exact [OF assms] by (simp add: getDidYouMean_def)
qed

text \<open>
  Claim C7. For every email whose domain (the piece after the first \<^verbatim>\<open>@\<close>) is a key of
  the typo table, \<^verbatim>\<open>suggestCorrection\<close> returns the local part joined with the mapped domain,
  at distance 0; the fuzzy loop has no part in the answer. \<^verbatim>\<open>getDidYouMean\<close> returns that
  string for the trimmed email. In particular \<^verbatim>\<open>getDidYouMean("user@gmial.com")\<close> is
  \<^verbatim>\<open>"user@gmail.com"\<close> and \<^verbatim>\<open>getDidYouMean("user@gmail.com")\<close> is \<^verbatim>\<open>null\<close>.
\<close>

theorem exact_typo_match:
  "(split_on CHR ''@'' e = l # d # rest \<and> map_of COMMON_TYPOS d = Some c \<longrightarrow>
      suggestCorrection (JStr e) = Some \<lparr>suggested = l @ ''@'' @ c, distance = 0\<rparr>) \<and>
   (split_on CHR ''@'' (trim e) = l # d # rest \<and> map_of COMMON_TYPOS d = Some c \<longrightarrow>
      getDidYouMean (JStr e) = Some (l @ ''@'' @ c)) \<and>
   getDidYouMean (JStr ''user@gmial.com'') = Some ''user@gmail.com'' \<and>
   getDidYouMean (JStr ''user@gmail.com'') = None"
proof (intro conjI impI)
  assume "split_on CHR ''@'' e = l # d # rest \<and> map_of COMMON_TYPOS d = Some c"
  then show "suggestCorrection (JStr e) = Some \<lparr>suggested = l @ ''@'' @ c, distance = 0\<rparr>"
    by (simp add: suggestCorrection_exact typo_lookup_own)
next
  assume "split_on CHR ''@'' (trim e) = l # d # rest \<and> map_of COMMON_TYPOS d = Some c"
  then show "getDidYouMean (JStr e) = Some (l @ ''@'' @ c)"
    by (simp add: getDidYouMean_exact typo_lookup_own)
next
  show "getDidYouMean (JStr ''user@gmial.com'') = Some ''user@gmail.com''"
    by code_simp
next
  show "getDidYouMean (JStr ''user@gmail.com'') = None"
    by code_simp
qed

text \<open>The theorem at \<^verbatim>\<open>jane@yahooo.com\<close>, bare and padded with spaces.\<close>

theorem exact_typo_match_witness:
  "split_on CHR ''@'' ''jane@yahooo.com'' = [''jane'', ''yahooo.com''] \<and>
   split_on CHR ''@'' (trim '' jane@yahooo.com '') = [''jane'', ''yahooo.com''] \<and>
   map_of COMMON_TYPOS ''yahooo.com'' = Some ''yahoo.com'' \<and>
   suggestCorrection (JStr ''jane@yahooo.com'') =
     Some \<lparr>suggested = ''jane@yahoo.com'', distance = 0\<rparr> \<and>
   getDidYouMean (JStr '' jane@yahooo.com '') = Some ''jane@yahoo.com''"
proof -
  have h1: "split_on CHR ''@'' ''jane@yahooo.com'' = [''jane'', ''yahooo.com'']"
    by code_simp
  have h2: "split_on CHR ''@'' (trim '' jane@yahooo.com '') = [''jane'', ''yahooo.com'']"
    by code_simp
  have h3: "map_of COMMON_TYPOS ''yahooo.com'' = Some ''yahoo.com''"
    by code_simp
  have a: "suggestCorrection (JStr ''jane@yahooo.com'') =
      Some \<lparr>suggested = ''jane'' @ ''@'' @ ''yahoo.com'', distance = 0\<rparr>"
    using exact_typo_match [of "''jane@yahooo.com''" "''jane''" "''yahooo.com''" "[]" "''yahoo.com''"]
      h1 h3 by blast
  have b: "getDidYouMean (JStr '' jane@yahooo.com '') = Some (''jane'' @ ''@'' @ ''yahoo.com'')"
    using exact_typo_match [of "'' jane@yahooo.com ''" "''jane''" "''yahooo.com''" "[]" "''yahoo.com''"]
      h2 h3 by blast
  show ?thesis
    using h1 h2 h3 a b by simp
qed

lemma trim_id:
  assumes "s \<noteq> []" and "\<not> is_ws (hd s)" and "\<not> is_ws (last s)"
  shows "trim s = s"
proof -
  have a: "dropWhile is_ws s = s"
    using assms(1,2) by (cases s) simp_all
  obtain ys y where s: "s = ys @ [y]"
    using assms(1) by (cases s rule: rev_cases) auto
  then have "\<not> is_ws y"
    using assms(3) by simp
  then have "dropWhile is_ws (rev s) = rev s"
    by (simp add: s)
  then show ?thesis
    by (simp add: trim_def a)
qed

lemma trim_aol:
  assumes "L = [] \<or> \<not> is_ws (hd L)"
  shows "trim (L @ ''@aol.com'') = L @ ''@aol.com''"
proof (rule trim_id)
  show "L @ ''@aol.com'' \<noteq> []" by simp
  show "\<not> is_ws (hd (L @ ''@aol.com''))"
    using assms by (cases L) (simp_all add: is_ws_def)
  show "\<not> is_ws (last (L @ ''@aol.com''))"
    by (simp add: is_ws_def)
qed

lemma split_aol:
  assumes "CHR ''@'' \<notin> set L"
  shows "split_on CHR ''@'' (L @ ''@aol.com'') = [L, ''aol.com'']"
proof -
  have "split_on CHR ''@'' ''aol.com'' = [''aol.com'']"
    by code_simp
  then show ?thesis
    using split_on_append [OF assms, of "''aol.com''"] by simp
qed

lemma typo_lookup_aol: "typo_lookup ''aol.com'' = Some ''aol.com''"
  by code_simp

lemma suggestCorrection_aol:
  assumes "CHR ''@'' \<notin> set L"
  shows "suggestCorrection (JStr (L @ ''@aol.com'')) =
           Some \<lparr>suggested = L @ ''@aol.com'', distance = 0\<rparr>"
  using suggestCorrection_exact [OF split_aol [OF assms] typo_lookup_aol] by simp

lemma getDidYouMean_aol:
  assumes "CHR ''@'' \<notin> set L" and "L = [] \<or> \<not> is_ws (hd L)"
  shows "getDidYouMean (JStr (L @ ''@aol.com'')) = Some (L @ ''@aol.com'')"
  using suggestCorrection_aol [OF assms(1)] trim_aol [OF assms(2)]
  by (simp add: getDidYouMean_def)

text \<open>The fuzzy loop keeps the last candidate at the least distance.\<close>

lemma least_distance_le: "least_distance d table \<le> 2"
proof -
  have *: "m \<le> 2 \<Longrightarrow> fold (\<lambda>entry m. min m (levenshteinDistance d (fst entry))) xs m \<le> 2"
    for xs and m :: nat
    by (induction xs arbitrary: m) (simp_all add: min.coboundedI1)
  show ?thesis
    unfolding least_distance_def by (rule *) simp
qed

lemma eligible_snoc:
  "eligible d (xs @ [x]) =
     eligible d xs @ (if levenshteinDistance d (fst x) \<le> 2 \<and> snd x \<noteq> d then [x] else [])"
  by (simp add: eligible_def)

lemma least_distance_snoc:
  "least_distance d (xs @ [x]) =
     (if levenshteinDistance d (fst x) \<le> 2 \<and> snd x \<noteq> d
      then min (least_distance d xs) (levenshteinDistance d (fst x))
      else least_distance d xs)"
  by (simp add: least_distance_def eligible_snoc)

lemma fold_fuzzy_step:
  "fold (fuzzy_step l d) table (None, 2) =
     (map_option (suggestion_for l d) (last_minimal d table), least_distance d table)"
proof (induction table rule: rev_induct)
  case Nil
  then show ?case
    by (simp add: last_minimal_def minimal_candidates_def eligible_def least_distance_def)
next
  case (snoc x xs)
  let ?k = "levenshteinDistance d (fst x)"
  let ?old = "(map_option (suggestion_for l d) (last_minimal d xs), least_distance d xs)"
  have le2: "least_distance d xs \<le> 2"
    by (rule least_distance_le)
  have fz: "fuzzy_step l d x (bm, n) =
              (if ?k \<le> n \<and> snd x \<noteq> d then (Some (suggestion_for l d x), ?k) else (bm, n))"
    for bm n
    by (simp add: fuzzy_step_def Let_def suggestion_for_def)
  have st: "fold (fuzzy_step l d) (xs @ [x]) (None, 2) =
              (if ?k \<le> least_distance d xs \<and> snd x \<noteq> d
               then (Some (suggestion_for l d x), ?k) else ?old)"
    using snoc by (simp add: fz)
  show ?case
  proof (cases "?k \<le> least_distance d xs \<and> snd x \<noteq> d")
    case True
    then have el: "?k \<le> 2 \<and> snd x \<noteq> d"
      using le2 by simp
    have ld: "least_distance d (xs @ [x]) = ?k"
      using True el by (simp add: least_distance_snoc min_def)
    have "minimal_candidates d (xs @ [x]) =
            filter (\<lambda>entry. levenshteinDistance d (fst entry) = ?k) (eligible d xs) @ [x]"
      using el by (simp add: minimal_candidates_def ld eligible_snoc)
    then have lm: "last_minimal d (xs @ [x]) = Some x"
      by (simp add: last_minimal_def)
    have "fold (fuzzy_step l d) (xs @ [x]) (None, 2) = (Some (suggestion_for l d x), ?k)"
      unfolding st by (rule if_P) (rule True)
    then show ?thesis
      by (simp add: lm ld)
  next
    case False
    have ld: "least_distance d (xs @ [x]) = least_distance d xs"
      using False by (auto simp: least_distance_snoc min_def)
    have "minimal_candidates d (xs @ [x]) = minimal_candidates d xs"
      using False by (auto simp: minimal_candidates_def ld eligible_snoc)
    then have lm: "last_minimal d (xs @ [x]) = last_minimal d xs"
      by (simp add: last_minimal_def)
    have "fold (fuzzy_step l d) (xs @ [x]) (None, 2) = ?old"
      unfolding st by (rule if_not_P) (rule False)
    then show ?thesis
      by (simp add: lm ld)
  qed
qed

lemma fuzzy_match_last_minimal:
  "fuzzy_match table l d = map_option (suggestion_for l d) (last_minimal d table)"
  by (simp add: fuzzy_match_def fold_fuzzy_step)

text \<open>
  Claim C6, as amended. For every email whose domain is neither a key of the typo table
  nor the name of a member inherited from \<^verbatim>\<open>Object.prototype\<close>, \<^verbatim>\<open>suggestCorrection\<close> returns
  the candidate at the least Levenshtein distance among the entries within distance 2
  whose corrected domain differs from the input domain, and returns nothing when there
  is no such entry; among several candidates at the least distance it returns the last
  one in table order, because the loop replaces its best match on \<^verbatim>\<open><=\<close>.
\<close>

theorem suggestCorrection_fuzzy:
  assumes "split_on CHR ''@'' e = l # d # rest" and "typo_lookup d = None"
  shows "suggestCorrection (JStr e) =
           map_option (suggestion_for l d) (last_minimal d COMMON_TYPOS)"
proof -
  have "CHR ''@'' \<in> set e"
    using assms(1) by (rule split_on_pieces_includes)
  then have "e \<noteq> []" and "js_includes e ''@''"
    by (auto simp: js_includes_single)
  then show ?thesis
    using assms by (simp add: suggestCorrection_def fuzzy_match_last_minimal)
qed

text \<open>
  The theorem at \<^verbatim>\<open>user@xtmil.com\<close>: \<^verbatim>\<open>gmil.com\<close> and \<^verbatim>\<open>hotmil.com\<close> are both at distance 2,
  and the later one is returned.
\<close>

theorem suggestCorrection_fuzzy_witness:
  "split_on CHR ''@'' ''user@xtmil.com'' = [''user'', ''xtmil.com''] \<and>
   typo_lookup ''xtmil.com'' = None \<and>
   last_minimal ''xtmil.com'' COMMON_TYPOS = Some (''hotmil.com'', ''hotmail.com'') \<and>
   suggestCorrection (JStr ''user@xtmil.com'') =
     Some \<lparr>suggested = ''user@hotmail.com'', distance = 2\<rparr>"
proof -
  have h1: "split_on CHR ''@'' ''user@xtmil.com'' = [''user'', ''xtmil.com'']"
    by code_simp
  have h2: "typo_lookup ''xtmil.com'' = None"
    by code_simp
  have h3: "last_minimal ''xtmil.com'' COMMON_TYPOS = Some (''hotmil.com'', ''hotmail.com'')"
    by code_simp
  have h4: "suggestion_for ''user'' ''xtmil.com'' (''hotmil.com'', ''hotmail.com'') =
              \<lparr>suggested = ''user@hotmail.com'', distance = 2\<rparr>"
    by code_simp
  show ?thesis
    using suggestCorrection_fuzzy [OF h1 h2] h1 h2 h3 h4 by simp
qed

text \<open>
  The claim as first stated fails there: the first candidate at the least distance is
  \<^verbatim>\<open>gmil.com\<close>, which would give \<^verbatim>\<open>user@gmail.com\<close>, and the function returns
  \<^verbatim>\<open>user@hotmail.com\<close>.
\<close>

theorem first_minimal_counterexample:
  "map_of COMMON_TYPOS ''xtmil.com'' = None \<and>
   first_minimal ''xtmil.com'' COMMON_TYPOS = Some (''gmil.com'', ''gmail.com'') \<and>
   suggestion_for ''user'' ''xtmil.com'' (''gmil.com'', ''gmail.com'') =
     \<lparr>suggested = ''user@gmail.com'', distance = 2\<rparr> \<and>
   suggestCorrection (JStr ''user@xtmil.com'') =
     Some \<lparr>suggested = ''user@hotmail.com'', distance = 2\<rparr>"
  by code_simp

section \<open>Properties of verifyWithSMTP\<close>

lemma find_pos_nonzero:
  "find (\<lambda>r. responseCode r > 0) outs = find (\<lambda>r. responseCode r \<noteq> 0) outs"
  by (induction outs) simp_all

lemma three_elements: "length xs = 3 \<Longrightarrow> \<exists>a b c. xs = [a, b, c]"
  by (cases xs; simp) (metis (no_types) length_0_conv length_Suc_conv numeral_2_eq_2 Suc_inject)

text \<open>
  Claim C4, as amended. When all three ports have finished and no probe reports a
  success or a response code from 550 to 599, the verdict carries the success flag, the
  response code and the port of the first finished probe with a nonzero response code,
  or of the first finished probe when there is none; its \<^verbatim>\<open>allPortsBlocked\<close> is true exactly
  when every probe has response code 0; and its message is that probe's message, except
  that it is the fixed text \<^verbatim>\<open>All SMTP ports blocked\<close> when \<^verbatim>\<open>allPortsBlocked\<close> is true.
\<close>

theorem verifyWithSMTP_all_finished:
  assumes "length outs = length ports"
    and "\<forall>r\<in>set outs. \<not> success r \<and> \<not> (550 \<le> responseCode r \<and> responseCode r < 600)"
  shows "verifyWithSMTP outs =
           Some \<lparr>success = success (best_probe outs),
                 responseCode = responseCode (best_probe outs),
                 message = (if \<forall>r\<in>set outs. responseCode r = 0
                            then ''All SMTP ports blocked'' else message (best_probe outs)),
                 port = port (best_probe outs),
                 allPortsBlocked = (\<forall>r\<in>set outs. responseCode r = 0),
                 lastError = Some (best_probe outs)\<rparr>"
proof -
  have "length outs = 3"
    using assms(1) by (simp add: ports_def)
  then obtain a b c where outs: "outs = [a, b, c]"
    using three_elements by blast
  have na: "\<not> success a" "\<not> (550 \<le> responseCode a \<and> responseCode a < 600)"
    and nb: "\<not> success b" "\<not> (550 \<le> responseCode b \<and> responseCode b < 600)"
    and nc: "\<not> success c" "\<not> (550 \<le> responseCode c \<and> responseCode c < 600)"
    using assms(2) by (simp_all add: outs)
  let ?s0 = "\<lparr>pending = 3, resolved = False, results = [], settled = None\<rparr>"
  have s1: "on_result ?s0 a = \<lparr>pending = 2, resolved = False, results = [a], settled = None\<rparr>"
    by (simp add: on_result_def Let_def na)
  have s2: "on_result \<lparr>pending = 2, resolved = False, results = [a], settled = None\<rparr> b =
              \<lparr>pending = 1, resolved = False, results = [a, b], settled = None\<rparr>"
    by (simp add: on_result_def Let_def nb)
  have s3: "settled (on_result \<lparr>pending = 1, resolved = False, results = [a, b], settled = None\<rparr> c) =
              Some \<lparr>success = success (best_probe [a, b, c]),
                 responseCode = responseCode (best_probe [a, b, c]),
                 message = (if \<forall>r\<in>set [a, b, c]. responseCode r = 0
                            then ''All SMTP ports blocked'' else message (best_probe [a, b, c])),
                 port = port (best_probe [a, b, c]),
                 allPortsBlocked = (\<forall>r\<in>set [a, b, c]. responseCode r = 0),
                 lastError = Some (best_probe [a, b, c])\<rparr>"
    by (simp add: on_result_def Let_def nc mainResolve_def best_probe_def list_all_iff
        del: find.simps cong: option.case_cong)
  show ?thesis
    unfolding verifyWithSMTP_def outs
    using s3 by (simp add: ports_def s1 s2 del: find.simps)
qed

text \<open>The theorem at two timeouts around a 450 reply on port 465.\<close>

theorem verifyWithSMTP_all_finished_witness:
  "length [timed_out 25, replied 465 450 ''450 try later'', timed_out 587] = length ports \<and>
   \<not> list_ex success [timed_out 25, replied 465 450 ''450 try later'', timed_out 587] \<and>
   \<not> list_ex (\<lambda>r. 550 \<le> responseCode r \<and> responseCode r < 600)
        [timed_out 25, replied 465 450 ''450 try later'', timed_out 587] \<and>
   verifyWithSMTP [timed_out 25, replied 465 450 ''450 try later'', timed_out 587] =
     Some \<lparr>success = False, responseCode = 450, message = ''450 try later'', port = 465,
           allPortsBlocked = False, lastError = Some (replied 465 450 ''450 try later'')\<rparr>"
proof -
  let ?outs = "[timed_out 25, replied 465 450 ''450 try later'', timed_out 587]"
  have h1: "length ?outs = length ports"
    by (simp add: ports_def)
  have h2: "\<forall>r\<in>set ?outs. \<not> success r \<and> \<not> (550 \<le> responseCode r \<and> responseCode r < 600)"
    by (simp add: timed_out_def replied_def)
  have b: "best_probe ?outs = replied 465 450 ''450 try later''"
    by (simp add: best_probe_def timed_out_def replied_def)
  have z: "\<not> (\<forall>r\<in>set ?outs. responseCode r = 0)"
    by (simp add: replied_def)
  have f: "success (replied 465 450 ''450 try later'') = False"
     "responseCode (replied 465 450 ''450 try later'') = 450"
     "message (replied 465 450 ''450 try later'') = ''450 try later''"
     "port (replied 465 450 ''450 try later'') = 465"
    by (simp_all add: replied_def)
  have "verifyWithSMTP ?outs =
     Some \<lparr>success = False, responseCode = 450, message = ''450 try later'', port = 465,
           allPortsBlocked = False, lastError = Some (replied 465 450 ''450 try later'')\<rparr>"
    using verifyWithSMTP_all_finished [OF h1 h2] unfolding b using z f by simp
  moreover have "\<not> list_ex success ?outs"
    by (simp add: timed_out_def replied_def)
  moreover have "\<not> list_ex (\<lambda>r. 550 \<le> responseCode r \<and> responseCode r < 600) ?outs"
    by (simp add: timed_out_def replied_def)
  ultimately show ?thesis
    using h1 by blast
qed

text \<open>
  The claim as first stated fails at three timeouts: the verdict is not the first
  finished probe, whose message is \<^verbatim>\<open>Port 25: timeout\<close>; its message has been replaced.
\<close>

theorem verifyWithSMTP_blocked_message_counterexample:
  "best_probe all_timed_out = timed_out 25 \<and>
   message (timed_out 25) = ''Port 25: timeout'' \<and>
   verifyWithSMTP all_timed_out =
     Some \<lparr>success = False, responseCode = 0, message = ''All SMTP ports blocked'', port = 25,
           allPortsBlocked = True, lastError = Some (timed_out 25)\<rparr>"
  by code_simp

section \<open>Properties of verifyEmail\<close>

text \<open>
  Claim C1 says that \<^verbatim>\<open>verifyEmail\<close> never raises, whatever value it is given, and that
  every exception inside the call ends in the \<^verbatim>\<open>verification_error\<close> result. The result
  object is built before the \<^verbatim>\<open>try\<close> block, and building it calls the \<^verbatim>\<open>trim\<close> member of
  the argument: for an object such as \<^verbatim>\<open>{ trim: 1 }\<close> the call throws, nothing catches the
  exception, and the promise is rejected, for every state of the network and all options.
\<close>

theorem verifyEmail_rejects_uncallable_trim:
  "verifyEmail w (JObj TrimNotCallable) opts = Rejected ''email?.trim is not a function''"
  by (simp add: verifyEmail_def email_field_def)

text \<open>
  An address the validator accepts has one \<^verbatim>\<open>@\<close>; when it also passes the typo check, the
  call goes on to step 3 with the result object \<open>after_typo_check\<close>.
\<close>

lemma validateEmailSyntax_valid_split:
  assumes "validateEmailSyntax (JStr s) = Valid"
  shows "\<exists>l d. split_on CHR ''@'' (trim s) = [l, d]"
proof -
  have "count_char CHR ''@'' (trim s) = 1"
    using assms by (auto simp: validateEmailSyntax_def Let_def split: if_splits)
  then show ?thesis
    by (rule split_on_two)
qed

lemma typo_stage_pass:
  assumes "split_on CHR ''@'' e = l # d # rest" and "passes_typo_check e"
  shows "typo_stage w opts e r =
           mx_stage w opts d
             (r\<lparr>domain := d, disposable := (toLowerCase d \<in> set DISPOSABLE_DOMAINS),
                roleBased := (toLowerCase l \<in> set ROLE_ACCOUNTS)\<rparr>)"
  using assms
  by (auto simp: typo_stage_def passes_typo_check_def Let_def split: option.splits)

lemma verifyEmail_pass:
  assumes "validateEmailSyntax (JStr s) = Valid"
    and "split_on CHR ''@'' (trim s) = l # d # rest"
    and "passes_typo_check (trim s)"
  shows "verifyEmail w (JStr s) opts = mx_stage w opts d (after_typo_check w (trim s) l d)"
  using assms(1) typo_stage_pass [OF assms(2,3)]
  by (simp add: verifyEmail_def email_field_def Let_def after_typo_check_def)

lemma smtp_stage_nothing_to_probe:
  assumes "checkSMTP opts" and "mxRecords r = []"
  shows "smtp_stage w opts r = Fulfilled (r\<lparr>executiontime := elapsed w\<rparr>)"
  using assms by (simp add: smtp_stage_def)

text \<open>
  Claim C5. For every email that passes syntax validation and typo detection,
  \<^verbatim>\<open>verifyEmail\<close> with \<^verbatim>\<open>checkMX=false\<close> and \<^verbatim>\<open>checkSMTP=true\<close> returns the initial
  classification: result \<^verbatim>\<open>unknown\<close>, code 3, subresult \<^verbatim>\<open>unknown\<close>. Neither branch of step 4
  has run: there are no records, \<^verbatim>\<open>smtpChecked\<close> is false, the method is still \<^verbatim>\<open>unknown\<close>
  and the SMTP step still reads \<^verbatim>\<open>Skipped\<close>.
\<close>

theorem verifyEmail_smtp_without_mx:
  assumes "validateEmailSyntax (JStr s) = Valid" and "passes_typo_check (trim s)"
    and "\<not> checkMX opts" and "checkSMTP opts"
  shows "\<exists>r. verifyEmail w (JStr s) opts = Fulfilled r \<and>
             result r = ''unknown'' \<and> resultcode r = 3 \<and> subresult r = ''unknown'' \<and>
             mxRecords r = [] \<and> \<not> smtpChecked r \<and> verificationMethod r = ''unknown'' \<and>
             smtp_step (steps r) = \<lparr>step_valid = None, step_message = ''Skipped''\<rparr>"
proof -
  obtain l d where sp: "split_on CHR ''@'' (trim s) = [l, d]"
    using validateEmailSyntax_valid_split [OF assms(1)] by blast
  let ?r = "after_typo_check w (trim s) l d"
  have "verifyEmail w (JStr s) opts = mx_stage w opts d ?r"
    by (rule verifyEmail_pass [OF assms(1) sp assms(2)])
  also have "\<dots> = smtp_stage w opts ?r"
    using assms(3) by (simp add: mx_stage_def)
  also have "\<dots> = Fulfilled (?r\<lparr>executiontime := elapsed w\<rparr>)"
    by (rule smtp_stage_nothing_to_probe [OF assms(4)])
       (simp add: after_typo_check_def initial_result_def)
  finally show ?thesis
    by (simp add: after_typo_check_def initial_result_def)
qed

text \<open>The theorem at \<^verbatim>\<open>user@example.com\<close>.\<close>

theorem verifyEmail_smtp_without_mx_witness:
  "validateEmailSyntax (JStr ''user@example.com'') = Valid \<and>
   passes_typo_check (trim ''user@example.com'') \<and>
   \<not> checkMX (default_options\<lparr>checkMX := False\<rparr>) \<and>
   checkSMTP (default_options\<lparr>checkMX := False\<rparr>) \<and>
   (\<exists>r. verifyEmail (sample_world (rejecting 550 ''550 no such user'')) (JStr ''user@example.com'')
          (default_options\<lparr>checkMX := False\<rparr>) = Fulfilled r \<and>
        result r = ''unknown'' \<and> resultcode r = 3 \<and> subresult r = ''unknown'' \<and>
        mxRecords r = [] \<and> \<not> smtpChecked r \<and> verificationMethod r = ''unknown'' \<and>
        smtp_step (steps r) = \<lparr>step_valid = None, step_message = ''Skipped''\<rparr>)"
proof -
  have h1: "validateEmailSyntax (JStr ''user@example.com'') = Valid"
    by code_simp
  have h2: "passes_typo_check (trim ''user@example.com'')"
    by code_simp
  have h3: "\<not> checkMX (default_options\<lparr>checkMX := False\<rparr>)"
    by simp
  have h4: "checkSMTP (default_options\<lparr>checkMX := False\<rparr>)"
    by (simp add: default_options_def)
  show ?thesis
    using verifyEmail_smtp_without_mx [OF h1 h2 h3 h4] h1 h2 h3 h4 by blast
qed

text \<open>
  The server loop ends in the state that absorbing the obtained verdicts one after the
  other gives; only the last of them can be a success or a code from 550 to 599.
\<close>

lemma smtp_loop_verdicts:
  "smtp_loop probes i servers st = map_option (foldl absorb st) (verdicts_obtained probes i servers)"
proof (induction servers arbitrary: i st)
  case Nil
  then show ?case by simp
next
  case (Cons mxServer rest)
  show ?case
  proof (cases "verifyWithSMTP (probes i mxServer)")
    case None
    then show ?thesis by simp
  next
    case (Some v)
    show ?thesis
    proof (cases "success v \<or> (responseCode v \<ge> 550 \<and> responseCode v < 600)")
      case True
      then have "snd (loop_body st v) = True"
        by (auto simp: loop_body_def Let_def)
      then show ?thesis
        using Some True by (cases "loop_body st v") (auto simp: absorb_def)
    next
      case False
      then have "snd (loop_body st v) = False"
        by (auto simp: loop_body_def Let_def)
      then show ?thesis
        using Some False Cons.IH [of "Suc i" "absorb st v"]
        by (cases "loop_body st v")
           (auto simp: absorb_def option.map_comp comp_def split: option.splits)
    qed
  qed
qed

lemma obtained_only_last_breaks:
  "verdicts_obtained probes i servers = Some vs \<Longrightarrow> v \<in> set (butlast vs) \<Longrightarrow>
   \<not> success v \<and> \<not> (responseCode v \<ge> 550 \<and> responseCode v < 600)"
proof (induction servers arbitrary: i vs)
  case Nil
  then show ?case by simp
next
  case (Cons mxServer rest)
  then show ?case
    by (auto split: option.splits if_splits)
qed

lemma foldl_absorb_blocked:
  "blocked (foldl absorb st vs) = (blocked st \<or> (\<exists>v\<in>set vs. allPortsBlocked v))"
  by (induction vs arbitrary: st) (auto simp: absorb_def loop_body_def Let_def)

lemma foldl_absorb_success:
  "smtpSuccess (foldl absorb st vs) = (smtpSuccess st \<or> (\<exists>v\<in>set vs. success v))"
  by (induction vs arbitrary: st) (auto simp: absorb_def loop_body_def Let_def)

lemma foldl_absorb_last:
  "vs \<noteq> [] \<Longrightarrow>
   lastResponseCode (foldl absorb st vs) = responseCode (last vs) \<and>
   lastMessage (foldl absorb st vs) = message (last vs)"
  by (induction vs arbitrary: st rule: rev_induct) (auto simp: absorb_def loop_body_def Let_def)

lemma obtained_success_is_last:
  assumes "verdicts_obtained probes i servers = Some vs"
  shows "(\<exists>v\<in>set vs. success v) \<longleftrightarrow> vs \<noteq> [] \<and> success (last vs)"
proof
  assume "\<exists>v\<in>set vs. success v"
  then obtain v where v: "v \<in> set vs" "success v" by blast
  then have ne: "vs \<noteq> []" by auto
  have "v \<notin> set (butlast vs)"
    using obtained_only_last_breaks [OF assms] v(2) by blast
  moreover have "vs = butlast vs @ [last vs]"
    using ne by simp
  ultimately have "v = last vs"
    using v(1) by (metis Un_iff empty_iff empty_set set_ConsD set_append)
  then show "vs \<noteq> [] \<and> success (last vs)"
    using ne v(2) by simp
next
  assume "vs \<noteq> [] \<and> success (last vs)"
  then show "\<exists>v\<in>set vs. success v"
    using last_in_set by blast
qed

lemma smtp_stage_probe:
  assumes "checkSMTP opts" and "mxRecords r \<noteq> []"
  shows "smtp_stage w opts r =
           (case smtp_loop (tryPorts w) 0
                   (take (nat (min (maxAttempts opts) (int (length (mxRecords r))))) (mxRecords r))
                   (loop_start r) of
              None \<Rightarrow> Pending
            | Some st \<Rightarrow>
                Fulfilled ((classify st (r\<lparr>smtpChecked := True\<rparr>))\<lparr>executiontime := elapsed w\<rparr>))"
  using assms by (simp add: smtp_stage_def loop_start_def)

lemma mxRecords_after_mx_check [simp]: "mxRecords (after_mx_check w e l d records) = records"
  by (simp add: after_mx_check_def)

lemma verifyEmail_reaches_smtp:
  assumes "reaches_smtp w s opts servers"
  shows "\<exists>l d records.
           verifyEmail w (JStr s) opts =
             (case smtp_loop (tryPorts w) 0 servers
                     (loop_start (after_mx_check w (trim s) l d records)) of
                None \<Rightarrow> Pending
              | Some st \<Rightarrow>
                  Fulfilled ((classify st ((after_mx_check w (trim s) l d records)
                                \<lparr>smtpChecked := True\<rparr>))\<lparr>executiontime := elapsed w\<rparr>))"
proof -
  have v: "validateEmailSyntax (JStr s) = Valid" and t: "passes_typo_check (trim s)"
    and mx: "checkMX opts" and smtp: "checkSMTP opts"
    using assms by (simp_all add: reaches_smtp_def)
  obtain l d where sp: "split_on CHR ''@'' (trim s) = [l, d]"
    using validateEmailSyntax_valid_split [OF v] by blast
  obtain records where rec: "getMXRecords (resolveMx w) d = Inr records" "records \<noteq> []"
    "servers = take (nat (min (maxAttempts opts) (int (length records)))) records"
    using assms sp by (auto simp: reaches_smtp_def split: sum.splits)
  let ?r = "after_mx_check w (trim s) l d records"
  have "verifyEmail w (JStr s) opts = mx_stage w opts d (after_typo_check w (trim s) l d)"
    by (rule verifyEmail_pass [OF v sp t])
  also have "\<dots> = smtp_stage w opts ?r"
    using mx rec(1,2) by (simp add: mx_stage_def after_mx_check_def)
  also have "\<dots> = (case smtp_loop (tryPorts w) 0 servers (loop_start ?r) of
                None \<Rightarrow> Pending
              | Some st \<Rightarrow>
                  Fulfilled ((classify st (?r\<lparr>smtpChecked := True\<rparr>))\<lparr>executiontime := elapsed w\<rparr>))"
    using smtp_stage_probe [OF smtp, of ?r w] rec(2,3) by simp
  finally show ?thesis
    by blast
qed

lemma verifyEmail_after_loop:
  assumes "reaches_smtp w s opts servers"
    and "verdicts_obtained (tryPorts w) 0 servers = Some vs"
  shows "\<exists>r0. verifyEmail w (JStr s) opts =
           Fulfilled ((classify (foldl absorb (loop_start r0) vs) (r0\<lparr>smtpChecked := True\<rparr>))
                        \<lparr>executiontime := elapsed w\<rparr>)"
proof -
  obtain l d records where
    "verifyEmail w (JStr s) opts =
       (case smtp_loop (tryPorts w) 0 servers
               (loop_start (after_mx_check w (trim s) l d records)) of
          None \<Rightarrow> Pending
        | Some st \<Rightarrow>
            Fulfilled ((classify st ((after_mx_check w (trim s) l d records)
                          \<lparr>smtpChecked := True\<rparr>))\<lparr>executiontime := elapsed w\<rparr>))"
    using verifyEmail_reaches_smtp [OF assms(1)] by blast
  then show ?thesis
    using assms(2) by (auto simp: smtp_loop_verdicts)
qed

lemma interpretSMTPCode_not_fallback:
  "interpretSMTPCode code \<noteq> ''smtp_blocked_but_mx_valid''"
  by (simp add: interpretSMTPCode_def)

lemma interpretSMTPCode_not_typo:
  "interpretSMTPCode code \<noteq> ''typo_detected''"
  by (simp add: interpretSMTPCode_def)

lemma classify_fallback_iff:
  "blocked_fallback ((classify st r)\<lparr>executiontime := t\<rparr>) \<longleftrightarrow> \<not> smtpSuccess st \<and> blocked st"
  by (simp add: blocked_fallback_def classify_def Let_def interpretSMTPCode_not_fallback)

lemma loop_start_flags [simp]:
  "smtpSuccess (loop_start r) = False" "blocked (loop_start r) = False"
  by (simp_all add: loop_start_def)

text \<open>
  The branch the classification takes: the loop raises its \<^verbatim>\<open>smtpBlocked\<close> flag on a
  blocked verdict, and the fallback branch is the one taken when that flag is up and the
  loop did not end in a success.
\<close>

lemma fallback_branch_taken:
  assumes "reaches_smtp w s opts servers"
    and "verdicts_obtained (tryPorts w) 0 servers = Some vs"
  shows "\<exists>r. verifyEmail w (JStr s) opts = Fulfilled r \<and>
             (blocked_fallback r \<longleftrightarrow> (\<exists>v\<in>set vs. allPortsBlocked v) \<and> \<not> success (last vs))"
proof -
  obtain r0 where r0: "verifyEmail w (JStr s) opts =
           Fulfilled ((classify (foldl absorb (loop_start r0) vs) (r0\<lparr>smtpChecked := True\<rparr>))
                        \<lparr>executiontime := elapsed w\<rparr>)"
    using verifyEmail_after_loop [OF assms] by blast
  let ?st = "foldl absorb (loop_start r0) vs"
  have b: "blocked ?st \<longleftrightarrow> (\<exists>v\<in>set vs. allPortsBlocked v)"
    by (simp add: foldl_absorb_blocked)
  have s: "smtpSuccess ?st \<longleftrightarrow> vs \<noteq> [] \<and> success (last vs)"
    using obtained_success_is_last [OF assms(2)] by (simp add: foldl_absorb_success)
  have "(\<not> smtpSuccess ?st \<and> blocked ?st) \<longleftrightarrow>
          (\<exists>v\<in>set vs. allPortsBlocked v) \<and> \<not> success (last vs)"
    unfolding b s by auto
  then show ?thesis
    using r0 classify_fallback_iff [where st = ?st and r = "r0\<lparr>smtpChecked := True\<rparr>" and t = "elapsed w"]
    by blast
qed

text \<open>
  A last verdict with \<^verbatim>\<open>success=false\<close> and \<^verbatim>\<open>allPortsBlocked=true\<close> gives the
  blocked-fallback classification.
\<close>

lemma blocked_last_verdict_gives_fallback:
  assumes "reaches_smtp w s opts servers"
    and "verdicts_obtained (tryPorts w) 0 servers = Some vs"
    and "vs \<noteq> []" and "\<not> success (last vs)" and "allPortsBlocked (last vs)"
  shows "\<exists>r. verifyEmail w (JStr s) opts = Fulfilled r \<and> blocked_fallback r"
proof -
  have "\<exists>v\<in>set vs. allPortsBlocked v"
    using assms(3,5) last_in_set by blast
  then show ?thesis
    using fallback_branch_taken [OF assms(1,2)] assms(4) by blast
qed

text \<open>
  Claim C3 says that the classification after the server loop depends on the last
  verdict alone, and that the blocked fallback is not produced when the last verdict has
  \<^verbatim>\<open>allPortsBlocked=false\<close>, whatever an earlier server did. The code does not keep to it:
  the \<^verbatim>\<open>smtpBlocked\<close> flag of the loop is raised by a blocked verdict and never lowered, and
  it is tested before the response code. When the first server is silent on all ports and
  the second answers the recipient command with 550, the last verdict is a rejection that
  is not blocked, and the result is the blocked fallback: \<^verbatim>\<open>valid\<close>, code 1,
  \<^verbatim>\<open>smtp_blocked_but_mx_valid\<close>, with the error text \<^verbatim>\<open>550 no such user\<close>.
\<close>

theorem blocked_flag_outlives_server:
  "verdicts_obtained (tryPorts (sample_world (blocked_then 550 ''550 no such user''))) 0
     sample_servers = Some [silent_verdict, reply_verdict 550 ''550 no such user''] \<and>
   success (reply_verdict 550 ''550 no such user'') = False \<and>
   allPortsBlocked (reply_verdict 550 ''550 no such user'') = False \<and>
   responseCode (reply_verdict 550 ''550 no such user'') = 550 \<and>
   map_promise blocked_fallback
     (verifyEmail (sample_world (blocked_then 550 ''550 no such user''))
        (JStr ''user@example.com'') default_options) = Fulfilled True \<and>
   map_promise classification
     (verifyEmail (sample_world (blocked_then 550 ''550 no such user''))
        (JStr ''user@example.com'') default_options) =
     Fulfilled (''valid'', 1, ''smtp_blocked_but_mx_valid'') \<and>
   map_promise error
     (verifyEmail (sample_world (blocked_then 550 ''550 no such user''))
        (JStr ''user@example.com'') default_options) = Fulfilled (Some ''550 no such user'')"
  by code_simp

lemma classify_rejected:
  assumes "\<not> smtpSuccess st" and "\<not> blocked st"
    and "550 \<le> lastResponseCode st" and "lastResponseCode st < 600"
  shows "result ((classify st r)\<lparr>executiontime := t\<rparr>) = ''invalid'' \<and>
         resultcode ((classify st r)\<lparr>executiontime := t\<rparr>) = 6 \<and>
         subresult ((classify st r)\<lparr>executiontime := t\<rparr>) =
           interpretSMTPCode (lastResponseCode st)"
  using assms by (simp add: classify_def Let_def)

text \<open>
  Claim C2, as amended. When no verdict obtained in the loop has \<^verbatim>\<open>allPortsBlocked=true\<close>
  and the last one has \<^verbatim>\<open>success=false\<close> and a response code from 550 to 553, the email is
  classified as result \<^verbatim>\<open>invalid\<close>, code 6; the subresult is \<^verbatim>\<open>mailbox_does_not_exist\<close> for
  the codes 550, 551 and 553, and \<^verbatim>\<open>unknown_response\<close> for 552, which
  \<^verbatim>\<open>interpretSMTPCode\<close> does not list.
\<close>

theorem rejected_mailbox:
  assumes "reaches_smtp w s opts servers"
    and "verdicts_obtained (tryPorts w) 0 servers = Some vs"
    and "vs \<noteq> []" and "\<not> list_ex allPortsBlocked vs" and "\<not> success (last vs)"
    and "responseCode (last vs) \<in> {550, 551, 552, 553}"
  shows "\<exists>r. verifyEmail w (JStr s) opts = Fulfilled r \<and>
             result r = ''invalid'' \<and> resultcode r = 6 \<and>
             subresult r = (if responseCode (last vs) = 552 then ''unknown_response''
                            else ''mailbox_does_not_exist'')"
proof -
  obtain r0 where r0: "verifyEmail w (JStr s) opts =
           Fulfilled ((classify (foldl absorb (loop_start r0) vs) (r0\<lparr>smtpChecked := True\<rparr>))
                        \<lparr>executiontime := elapsed w\<rparr>)"
    using verifyEmail_after_loop [OF assms(1,2)] by blast
  let ?st = "foldl absorb (loop_start r0) vs"
  have b: "\<not> blocked ?st"
    using assms(4) by (simp add: foldl_absorb_blocked list_ex_iff)
  have s: "\<not> smtpSuccess ?st"
    using obtained_success_is_last [OF assms(2)] assms(5) by (simp add: foldl_absorb_success)
  have c: "lastResponseCode ?st = responseCode (last vs)"
    using foldl_absorb_last [OF assms(3)] by simp
  have range: "550 \<le> lastResponseCode ?st" "lastResponseCode ?st < 600"
    using assms(6) unfolding c by auto
  have i: "interpretSMTPCode (responseCode (last vs)) =
             (if responseCode (last vs) = 552 then ''unknown_response''
              else ''mailbox_does_not_exist'')"
    using assms(6) by (auto simp: interpretSMTPCode_def)
  show ?thesis
    using r0 classify_rejected [OF s b range, where r = "r0\<lparr>smtpChecked := True\<rparr>" and t = "elapsed w"]
    unfolding c i by blast
qed

text \<open>The theorem where the first server answers 550 on port 25.\<close>

theorem rejected_mailbox_witness:
  "reaches_smtp (sample_world (rejecting 550 ''550 no such user'')) ''user@example.com''
     default_options sample_servers \<and>
   verdicts_obtained (tryPorts (sample_world (rejecting 550 ''550 no such user''))) 0
     sample_servers = Some [reply_verdict 550 ''550 no such user''] \<and>
   \<not> list_ex allPortsBlocked [reply_verdict 550 ''550 no such user''] \<and>
   \<not> success (last [reply_verdict 550 ''550 no such user'']) \<and>
   responseCode (last [reply_verdict 550 ''550 no such user'']) = 550 \<and>
   (\<exists>r. verifyEmail (sample_world (rejecting 550 ''550 no such user''))
          (JStr ''user@example.com'') default_options = Fulfilled r \<and>
        result r = ''invalid'' \<and> resultcode r = 6 \<and> subresult r = ''mailbox_does_not_exist'')"
proof -
  let ?w = "sample_world (rejecting 550 ''550 no such user'')"
  let ?vs = "[reply_verdict 550 ''550 no such user'']"
  have h1: "reaches_smtp ?w ''user@example.com'' default_options sample_servers"
    by code_simp
  have h2: "verdicts_obtained (tryPorts ?w) 0 sample_servers = Some ?vs"
    by code_simp
  have h3: "?vs \<noteq> []"
    by simp
  have h4: "\<not> list_ex allPortsBlocked ?vs"
    by (simp add: reply_verdict_def)
  have h5: "\<not> success (last ?vs)"
    by (simp add: reply_verdict_def)
  have h6: "responseCode (last ?vs) = 550"
    by (simp add: reply_verdict_def)
  then have h6': "responseCode (last ?vs) \<in> {550, 551, 552, 553}"
    by simp
  have "\<exists>r. verifyEmail ?w (JStr ''user@example.com'') default_options = Fulfilled r \<and>
          result r = ''invalid'' \<and> resultcode r = 6 \<and> subresult r = ''mailbox_does_not_exist''"
    using rejected_mailbox [OF h1 h2 h3 h4 h5 h6'] unfolding h6 by simp
  then show ?thesis
    using h1 h2 h4 h5 h6 by blast
qed

text \<open>
  The claim as first stated fails at code 552: the verdict is not a success and not
  blocked, and the subresult is \<^verbatim>\<open>unknown_response\<close>.
\<close>

theorem code_552_counterexample:
  "verdicts_obtained (tryPorts (sample_world (rejecting 552 ''552 mailbox full''))) 0
     sample_servers =
     Some [\<lparr>success = False, responseCode = 552, message = ''552 mailbox full'', port = 25,
            allPortsBlocked = False, lastError = None\<rparr>] \<and>
   map_promise classification
     (verifyEmail (sample_world (rejecting 552 ''552 mailbox full''))
        (JStr ''user@example.com'') default_options) =
     Fulfilled (''invalid'', 6, ''unknown_response'')"
  by code_simp

text \<open>No step after the typo check writes \<^verbatim>\<open>typo_detected\<close> or a suggestion.\<close>

lemma classify_keeps:
  "subresult (classify st r) \<noteq> ''typo_detected'' \<and> didyoumean (classify st r) = didyoumean r"
  by (simp add: classify_def Let_def interpretSMTPCode_not_typo)

lemma smtp_stage_keeps:
  assumes "smtp_stage w opts r = Fulfilled r'" and "subresult r \<noteq> ''typo_detected''"
  shows "subresult r' \<noteq> ''typo_detected'' \<and> didyoumean r' = didyoumean r"
  using assms classify_keeps
  by (auto simp: smtp_stage_def split: if_splits option.splits)

lemma mx_stage_keeps:
  assumes "mx_stage w opts d r = Fulfilled r'" and "subresult r \<noteq> ''typo_detected''"
  shows "subresult r' \<noteq> ''typo_detected'' \<and> didyoumean r' = didyoumean r"
proof (cases "checkMX opts")
  case False
  then show ?thesis
    using assms smtp_stage_keeps by (simp add: mx_stage_def)
next
  case True
  show ?thesis
  proof (cases "getMXRecords (resolveMx w) d")
    case (Inl msg)
    then show ?thesis
      using assms True by (auto simp: mx_stage_def)
  next
    case (Inr records)
    show ?thesis
    proof (cases "records = []")
      case True
      then show ?thesis
        using assms \<open>checkMX opts\<close> Inr by (auto simp: mx_stage_def)
    next
      case False
      let ?r = "r\<lparr>mxRecords := records,
                   steps := (steps r)\<lparr>mx_step :=
                     \<lparr>step_valid = Some True,
                      step_message =
                        ''Found '' @ nat_to_string (length records) @ '' MX records''\<rparr>\<rparr>\<rparr>"
      have "smtp_stage w opts ?r = Fulfilled r'"
        using assms(1) \<open>checkMX opts\<close> Inr False by (simp add: mx_stage_def)
      from smtp_stage_keeps [OF this] assms(2) show ?thesis
        by simp
    qed
  qed
qed

text \<open>
  Claim C10. For every local part \<open>L\<close> (a string without \<^verbatim>\<open>@\<close> that does not begin with
  white space, as the first piece of a trimmed address is), \<^verbatim>\<open>getDidYouMean\<close> of
  \<open>L\<close> followed by \<^verbatim>\<open>@aol.com\<close> returns that same string, not \<^verbatim>\<open>null\<close>: the table maps
  \<^verbatim>\<open>aol.com\<close> to itself and the exact-match branch returns before any comparison. The
  suggestion equals the trimmed input, so the address passes the typo check, and no result of
  \<^verbatim>\<open>verifyEmail\<close> for it has the subresult \<^verbatim>\<open>typo_detected\<close> or a suggestion.
\<close>

theorem aol_self_suggestion:
  assumes "CHR ''@'' \<notin> set L" and "L = [] \<or> \<not> is_ws (hd L)"
  shows "getDidYouMean (JStr (L @ ''@aol.com'')) = Some (L @ ''@aol.com'') \<and>
         passes_typo_check (trim (L @ ''@aol.com'')) \<and>
         (\<forall>r. verifyEmail w (JStr (L @ ''@aol.com'')) opts = Fulfilled r \<longrightarrow>
              subresult r \<noteq> ''typo_detected'' \<and> didyoumean r = None)"
proof (intro conjI allI impI)
  show "getDidYouMean (JStr (L @ ''@aol.com'')) = Some (L @ ''@aol.com'')"
    by (rule getDidYouMean_aol [OF assms])
next
  show p: "passes_typo_check (trim (L @ ''@aol.com''))"
    using suggestCorrection_aol [OF assms(1)] trim_aol [OF assms(2)]
    by (simp add: passes_typo_check_def)
  fix r
  assume f: "verifyEmail w (JStr (L @ ''@aol.com'')) opts = Fulfilled r"
  let ?s = "L @ ''@aol.com''"
  show "subresult r \<noteq> ''typo_detected''" and "didyoumean r = None"
  proof -
    have "subresult r \<noteq> ''typo_detected'' \<and> didyoumean r = None"
    proof (cases "validateEmailSyntax (JStr ?s)")
      case (Invalid msg)
      then show ?thesis
        using f by (auto simp: verifyEmail_def email_field_def Let_def initial_result_def)
    next
      case Valid
      have sp: "split_on CHR ''@'' (trim ?s) = [L, ''aol.com'']"
        using split_aol [OF assms(1)] trim_aol [OF assms(2)] by simp
      have "mx_stage w opts ''aol.com'' (after_typo_check w (trim ?s) L ''aol.com'') = Fulfilled r"
        using verifyEmail_pass [OF Valid sp p, of w opts] f by simp
      from mx_stage_keeps [OF this] show ?thesis
        by (simp add: after_typo_check_def initial_result_def)
    qed
    then show "subresult r \<noteq> ''typo_detected''" and "didyoumean r = None"
      by simp_all
  qed
qed

text \<open>The theorem at the local part \<^verbatim>\<open>bob\<close>.\<close>

theorem aol_self_suggestion_witness:
  "CHR ''@'' \<notin> set ''bob'' \<and> \<not> is_ws (hd ''bob'') \<and>
   getDidYouMean (JStr ''bob@aol.com'') = Some ''bob@aol.com'' \<and>
   passes_typo_check (trim ''bob@aol.com'') \<and>
   (\<exists>r. verifyEmail (sample_world (rejecting 250 ''250 OK'')) (JStr ''bob@aol.com'')
          default_options = Fulfilled r \<and>
        subresult r \<noteq> ''typo_detected'' \<and> didyoumean r = None)"
proof -
  let ?w = "sample_world (rejecting 250 ''250 OK'')"
  have h1: "CHR ''@'' \<notin> set ''bob''"
    by simp
  have h2: "\<not> is_ws (hd ''bob'')"
    by (simp add: is_ws_def)
  then have h2': "''bob'' = [] \<or> \<not> is_ws (hd ''bob'')"
    by simp
  have e: "map_promise classification (verifyEmail ?w (JStr ''bob@aol.com'') default_options) =
             Fulfilled (''valid'', 1, ''mailbox_exists'')"
    by code_simp
  then obtain r where r: "verifyEmail ?w (JStr ''bob@aol.com'') default_options = Fulfilled r"
    by (cases "verifyEmail ?w (JStr ''bob@aol.com'') default_options") simp_all
  have a: "getDidYouMean (JStr (''bob'' @ ''@aol.com'')) = Some (''bob'' @ ''@aol.com'') \<and>
         passes_typo_check (trim (''bob'' @ ''@aol.com'')) \<and>
         (\<forall>r. verifyEmail ?w (JStr (''bob'' @ ''@aol.com'')) default_options = Fulfilled r \<longrightarrow>
              subresult r \<noteq> ''typo_detected'' \<and> didyoumean r = None)"
    by (rule aol_self_suggestion [OF h1 h2'])
  then have "subresult r \<noteq> ''typo_detected'' \<and> didyoumean r = None"
    using r by simp
  then show ?thesis
    using h1 h2 a r by auto
qed

text \<open>
  Apart from an object whose \<^verbatim>\<open>trim\<close> member is not callable or throws, every value gets
  a result: once all three ports of each server tried have finished, the promise is
  fulfilled.
\<close>

lemma on_result_resolved: "resolved st \<Longrightarrow> on_result st r = st"
  by (simp add: on_result_def)

lemma on_result_settled_mono: "settled st \<noteq> None \<Longrightarrow> settled (on_result st r) \<noteq> None"
  by (auto simp: on_result_def mainResolve_def Let_def split: option.splits)

lemma on_result_pending:
  "\<not> resolved st \<Longrightarrow> settled st = None \<Longrightarrow>
   settled (on_result st r) \<noteq> None \<or>
   (\<not> resolved (on_result st r) \<and> settled (on_result st r) = None \<and>
    pending (on_result st r) = pending st - 1 \<and> pending st \<noteq> 1)"
  by (auto simp: on_result_def mainResolve_def Let_def)

lemma verifyWithSMTP_settles:
  assumes "length outs = length ports"
  shows "verifyWithSMTP outs \<noteq> None"
proof -
  have "length outs = 3"
    using assms by (simp add: ports_def)
  then obtain a b c where outs: "outs = [a, b, c]"
    using three_elements by blast
  let ?s0 = "\<lparr>pending = 3, resolved = False, results = [], settled = None\<rparr>"
  let ?s1 = "on_result ?s0 a"
  let ?s2 = "on_result ?s1 b"
  let ?s3 = "on_result ?s2 c"
  have "settled ?s3 \<noteq> None"
  proof (cases "settled ?s1 = None")
    case False
    from on_result_settled_mono [OF on_result_settled_mono [OF False]] show ?thesis .
  next
    case True
    then have 1: "\<not> resolved ?s1" "pending ?s1 = 2"
      using on_result_pending [of ?s0 a] by simp_all
    show ?thesis
    proof (cases "settled ?s2 = None")
      case False
      then show ?thesis
        by (rule on_result_settled_mono)
    next
      case s2: True
      then have 2: "\<not> resolved ?s2" "pending ?s2 = 1"
        using on_result_pending [OF 1(1) True, of b] 1(2) by simp_all
      show ?thesis
        using on_result_pending [OF 2(1) s2, of c] 2(2) by auto
    qed
  qed
  then show ?thesis
    by (simp add: verifyWithSMTP_def outs ports_def)
qed

lemma smtp_loop_settles:
  assumes "\<forall>i mxServer. length (probes i mxServer) = length ports"
  shows "smtp_loop probes i servers st \<noteq> None"
proof (induction servers arbitrary: i st)
  case Nil
  then show ?case by simp
next
  case (Cons mxServer rest)
  obtain v where "verifyWithSMTP (probes i mxServer) = Some v"
    using verifyWithSMTP_settles assms by blast
  then show ?case
    using Cons.IH by (cases "loop_body st v") (auto split: bool.splits)
qed

lemma smtp_stage_settles:
  assumes "\<forall>i mxServer. length (tryPorts w i mxServer) = length ports"
  shows "\<exists>r'. smtp_stage w opts r = Fulfilled r'"
proof (cases "checkSMTP opts \<and> length (mxRecords r) > 0")
  case True
  let ?servers = "take (nat (min (maxAttempts opts) (int (length (mxRecords r))))) (mxRecords r)"
  obtain st where "smtp_loop (tryPorts w) 0 ?servers (loop_start r) = Some st"
    using smtp_loop_settles [OF assms, of 0 ?servers "loop_start r"] by blast
  then show ?thesis
    using True by (simp add: smtp_stage_def loop_start_def)
next
  case False
  then show ?thesis
    by (auto simp: smtp_stage_def)
qed

lemma mx_stage_settles:
  assumes "\<forall>i mxServer. length (tryPorts w i mxServer) = length ports"
  shows "\<exists>r'. mx_stage w opts d r = Fulfilled r'"
  using smtp_stage_settles [OF assms]
  by (auto simp: mx_stage_def split: sum.splits)

lemma typo_stage_settles:
  assumes "\<forall>i mxServer. length (tryPorts w i mxServer) = length ports"
  shows "\<exists>r'. typo_stage w opts e r = Fulfilled r'"
  using mx_stage_settles [OF assms]
  by (auto simp: typo_stage_def Let_def split: list.splits option.splits)

lemma email_field_builds:
  assumes "v \<noteq> JObj TrimNotCallable" and "\<forall>msg. v \<noteq> JObj (TrimThrows msg)"
  shows "\<exists>em. email_field v = Inr em"
proof (cases v)
  case (JObj m)
  then show ?thesis
    using assms by (cases m) (simp_all add: email_field_def)
qed (simp_all add: email_field_def)

lemma verifyEmail_settles:
  assumes "\<forall>i mxServer. length (tryPorts w i mxServer) = length ports"
    and "v \<noteq> JObj TrimNotCallable" and "\<forall>msg. v \<noteq> JObj (TrimThrows msg)"
  shows "\<exists>r. verifyEmail w v opts = Fulfilled r"
proof -
  obtain em where em: "email_field v = Inr em"
    using email_field_builds [OF assms(2,3)] by blast
  show ?thesis
  proof (cases "validateEmailSyntax v")
    case (Invalid msg)
    then show ?thesis
      by (simp add: verifyEmail_def em Let_def)
  next
    case Valid
    then show ?thesis
      using em typo_stage_settles [OF assms(1)]
      by (cases v) (auto simp: verifyEmail_def Let_def)
  qed
qed

end
